(* ===== verification/Tcp_Prelude.thy ===== *)
theory Tcp_Prelude
  imports Main "HOL-Library.Word" "HOL-Library.Monad_Syntax"
begin

unbundle bit_operations_syntax

text \<open>
  Shared vocabulary of the development: Rust's machine integers, panics, results, checked
  arithmetic and \<open>Duration\<close>, and the generic facts on options, lists and words the
  components use.

  A Rust function that can panic is modelled with a result in \<open>option\<close>: \<open>None\<close> is
  the panic (a failed assertion, \<open>unreachable!()\<close>, a failed \<open>unwrap\<close>, an
  arithmetic overflow with overflow checks on), \<open>Some\<close> is a normal return. A Rust
  \<open>Result<T, Error>\<close> is a sum, so that an error return stays a value and is never
  confused with a panic.
\<close>

section \<open>Types\<close>

type_synonym u8 = "8 word"
type_synonym u16 = "16 word"
type_synonym u32 = "32 word"
type_synonym u64 = "64 word"

text \<open>
  \<open>core::time::Duration\<close>, counted in nanoseconds. The standard library keeps a
  \<open>u64\<close> of seconds, so a sum that needs more panics; see \<open>duration_add\<close>.
\<close>

type_synonym Duration = nat

abbreviation nanos_per_sec :: nat where
  "nanos_per_sec \<equiv> 1000000000"

abbreviation from_secs :: "nat \<Rightarrow> Duration" where
  "from_secs s \<equiv> s * nanos_per_sec"

section \<open>The facts shared by the component proofs\<close>

text \<open>
  \<open>panic_simps\<close> unfolds the panicking primitives; \<open>frame_simps\<close> collects what an
  operation leaves unchanged.
\<close>

named_theorems panic_simps
named_theorems frame_simps

section \<open>Panics\<close>

definition rust_assert :: "bool \<Rightarrow> unit option" where
  "rust_assert P = (if P then Some () else None)"

text \<open>
  \<open>debug_assert!\<close> is compiled in only when debug assertions are on; \<open>dbg\<close> says so.
  The Cargo profiles tie the overflow checks to the same switch.
\<close>

definition debug_assert :: "bool \<Rightarrow> bool \<Rightarrow> unit option" where
  "debug_assert dbg P = rust_assert (dbg \<longrightarrow> P)"

definition ovf_add :: "bool \<Rightarrow> 'l::len word \<Rightarrow> 'l word \<Rightarrow> 'l word option" where
  "ovf_add dbg a b = (if dbg \<and> 2 ^ LENGTH('l) \<le> unat a + unat b then None else Some (a + b))"

definition ovf_mul :: "bool \<Rightarrow> 'l::len word \<Rightarrow> 'l word \<Rightarrow> 'l word option" where
  "ovf_mul dbg a b = (if dbg \<and> 2 ^ LENGTH('l) \<le> unat a * unat b then None else Some (a * b))"

definition duration_add :: "Duration \<Rightarrow> Duration \<Rightarrow> Duration option" where
  "duration_add a b = (if a + b < 2 ^ 64 * nanos_per_sec then Some (a + b) else None)"

lemma rust_assert_eq_Some [panic_simps]: "rust_assert P = Some u \<longleftrightarrow> P"
  by (simp add: rust_assert_def)

lemma rust_assert_eq_None [panic_simps]: "rust_assert P = None \<longleftrightarrow> \<not> P"
  by (simp add: rust_assert_def)

lemma debug_assert_eq_Some [panic_simps]: "debug_assert dbg P = Some u \<longleftrightarrow> (dbg \<longrightarrow> P)"
  by (simp add: debug_assert_def panic_simps)

lemma debug_assert_eq_None [panic_simps]: "debug_assert dbg P = None \<longleftrightarrow> dbg \<and> \<not> P"
  by (simp add: debug_assert_def panic_simps)

lemma rust_assert_True [simp]: "P \<Longrightarrow> rust_assert P = Some ()"
  by (simp add: panic_simps)

lemma rust_assert_False [simp]: "\<not> P \<Longrightarrow> rust_assert P = None"
  by (simp add: panic_simps)

lemma debug_assert_True [simp]: "P \<Longrightarrow> debug_assert dbg P = Some ()"
  by (simp add: panic_simps)

lemma debug_assert_off [simp]: "debug_assert False P = Some ()"
  by (simp add: panic_simps)

lemma ovf_add_Some: "ovf_add dbg a b = Some c \<Longrightarrow> c = a + b"
  by (simp add: ovf_add_def split: if_splits)

lemma ovf_mul_Some: "ovf_mul dbg a b = Some c \<Longrightarrow> c = a * b"
  by (simp add: ovf_mul_def split: if_splits)

lemma ovf_add_None_iff:
  "ovf_add dbg (a::'l::len word) b = None \<longleftrightarrow> dbg \<and> 2 ^ LENGTH('l) \<le> unat a + unat b"
  by (simp add: ovf_add_def)

lemma ovf_add_exact:
  "ovf_add True (a::'l::len word) b = Some c \<Longrightarrow> unat c = unat a + unat b"
  by (auto simp: ovf_add_def unat_word_ariths split: if_splits)

section \<open>Rust results\<close>

abbreviation Ok :: "'a \<Rightarrow> 'e + 'a" where
  "Ok \<equiv> Inr"

abbreviation Err :: "'e \<Rightarrow> 'e + 'a" where
  "Err \<equiv> Inl"

section \<open>Options\<close>

lemma bind_assert_eq_Some:
  "(do { _ \<leftarrow> rust_assert P; m }) = Some x \<longleftrightarrow> P \<and> m = Some x"
  by (cases P) simp_all

lemma bind_debug_assert_eq_Some:
  "(do { _ \<leftarrow> debug_assert dbg P; m }) = Some x \<longleftrightarrow> (dbg \<longrightarrow> P) \<and> m = Some x"
  by (cases "dbg \<longrightarrow> P") (auto simp: debug_assert_def)

lemma bind_eq_SomeI: "m = Some y \<Longrightarrow> f y = Some x \<Longrightarrow> Option.bind m f = Some x"
  by simp

section \<open>Lists\<close>

lemma concat_split_at: "concat (xs @ [ys]) = concat xs @ ys"
  by simp

lemma take_append_drop_concat:
  "n \<le> length xs \<Longrightarrow> take n (xs @ ys) = take n xs \<and> drop n (xs @ ys) = drop n xs @ ys"
  by simp

section \<open>Words\<close>

text \<open>\<open>len() as u32\<close>: the truncating cast of a length.\<close>

abbreviation as_u32 :: "nat \<Rightarrow> u32" where
  "as_u32 n \<equiv> word_of_nat n"

abbreviation as_u16 :: "nat \<Rightarrow> u16" where
  "as_u16 n \<equiv> word_of_nat n"

lemma unat_of_nat_u32: "n < 2 ^ 32 \<Longrightarrow> unat (as_u32 n) = n"
  by (simp add: unat_of_nat take_bit_nat_eq_self)

lemma unat_of_nat_u16: "n < 2 ^ 16 \<Longrightarrow> unat (as_u16 n) = n"
  by (simp add: unat_of_nat take_bit_nat_eq_self)

end
