(* ===== verification/Tcp_State.thy ===== *)
theory Tcp_State
  imports Tcp_Prelude
begin

text \<open>
  \<open>src/state.rs\<close>: the connection state machine's states, the check of the allowed
  transitions, and the queries on a state. Queries that panic in some states return an
  option.
\<close>

section \<open>States\<close>

datatype ChannelState = Open | Fin | Closed

text \<open>\<open>#[derive(PartialOrd, Ord)]\<close>: the variants are ordered as they are listed.\<close>

fun rank_ChannelState :: "ChannelState \<Rightarrow> nat" where
  "rank_ChannelState Open = 0"
| "rank_ChannelState Fin = 1"
| "rank_ChannelState Closed = 2"

instantiation ChannelState :: linorder
begin

definition less_eq_ChannelState :: "ChannelState \<Rightarrow> ChannelState \<Rightarrow> bool" where
  "less_eq_ChannelState a b \<longleftrightarrow> rank_ChannelState a \<le> rank_ChannelState b"

definition less_ChannelState :: "ChannelState \<Rightarrow> ChannelState \<Rightarrow> bool" where
  "less_ChannelState a b \<longleftrightarrow> rank_ChannelState a < rank_ChannelState b"

instance
proof
  fix a b :: ChannelState
  show "a \<le> b \<Longrightarrow> b \<le> a \<Longrightarrow> a = b"
    by (cases a; cases b) (simp_all add: less_eq_ChannelState_def)
qed (auto simp: less_eq_ChannelState_def less_ChannelState_def)

end

datatype ConnectionState =
    Listen
  | SynSent
  | SynReceived
  | Established ChannelState ChannelState bool bool
      \<comment> \<open>\<open>tx_state\<close>, \<open>rx_state\<close>, \<open>close_called\<close>, \<open>close_active\<close>\<close>
  | TimeWait
  | Reset
  | Closed

definition FULLY_OPEN :: ConnectionState where
  "FULLY_OPEN = Established Open Open False False"

section \<open>Queries\<close>

definition debug_validate_transition ::
  "bool \<Rightarrow> ConnectionState \<Rightarrow> ConnectionState \<Rightarrow> unit option" where
  "debug_validate_transition dbg self to_state =
     (case self of
        Established tx_state rx_state close_called close_active \<Rightarrow>
          (case to_state of
             Established to_tx_state to_rx_state to_close_called to_close_active \<Rightarrow> do {
               _ \<leftarrow> debug_assert dbg (tx_state \<le> to_tx_state);
               _ \<leftarrow> debug_assert dbg (rx_state \<le> to_rx_state);
               _ \<leftarrow> debug_assert dbg (close_called \<le> to_close_called);
               _ \<leftarrow> debug_assert dbg (close_active \<le> to_close_active);
               if close_called then debug_assert dbg (Fin \<le> to_tx_state) else Some ()
             }
           | _ \<Rightarrow> Some ())
      | _ \<Rightarrow> Some ())"

definition state_tx :: "ConnectionState \<Rightarrow> ChannelState" where
  "state_tx self =
     (case self of
        SynSent \<Rightarrow> Open | SynReceived \<Rightarrow> Open
      | Established tx_state _ _ _ \<Rightarrow> tx_state
      | Listen \<Rightarrow> ChannelState.Closed | TimeWait \<Rightarrow> ChannelState.Closed
      | Reset \<Rightarrow> ChannelState.Closed | Closed \<Rightarrow> ChannelState.Closed)"

definition state_rx :: "ConnectionState \<Rightarrow> ChannelState" where
  "state_rx self =
     (case self of
        SynSent \<Rightarrow> Open | SynReceived \<Rightarrow> Open
      | Established _ rx_state _ _ \<Rightarrow> rx_state
      | Listen \<Rightarrow> ChannelState.Closed | TimeWait \<Rightarrow> ChannelState.Closed
      | Reset \<Rightarrow> ChannelState.Closed | Closed \<Rightarrow> ChannelState.Closed)"

definition state_close_called :: "ConnectionState \<Rightarrow> bool option" where
  "state_close_called self =
     (case self of
        SynSent \<Rightarrow> Some False | SynReceived \<Rightarrow> Some False
      | Established _ _ close_called _ \<Rightarrow> Some close_called
      | Listen \<Rightarrow> None | TimeWait \<Rightarrow> None | Reset \<Rightarrow> None | Closed \<Rightarrow> None)"

definition state_close_active :: "ConnectionState \<Rightarrow> bool option" where
  "state_close_active self =
     (case self of
        SynSent \<Rightarrow> Some False | SynReceived \<Rightarrow> Some False
      | Established _ _ _ close_active \<Rightarrow> Some close_active
      | TimeWait \<Rightarrow> Some True
      | Listen \<Rightarrow> None | Reset \<Rightarrow> None | Closed \<Rightarrow> None)"

definition fin_sent :: "bool \<Rightarrow> ConnectionState \<Rightarrow> bool option" where
  "fin_sent dbg self = do {
     _ \<leftarrow> debug_assert dbg (self \<noteq> Closed);
     Some (case self of
             Established tx_state _ _ _ \<Rightarrow> tx_state = Fin \<or> tx_state = ChannelState.Closed
           | TimeWait \<Rightarrow> True
           | _ \<Rightarrow> False)
   }"

definition fin_received :: "bool \<Rightarrow> ConnectionState \<Rightarrow> bool option" where
  "fin_received dbg self = do {
     _ \<leftarrow> debug_assert dbg (self \<noteq> Closed);
     Some (case self of
             Established _ rx_state _ _ \<Rightarrow> rx_state = Fin \<or> rx_state = ChannelState.Closed
           | TimeWait \<Rightarrow> True
           | _ \<Rightarrow> False)
   }"

definition output_buffer_guaranteed_clear :: "bool \<Rightarrow> ConnectionState \<Rightarrow> bool option" where
  "output_buffer_guaranteed_clear dbg self = do {
     _ \<leftarrow> debug_assert dbg (self \<noteq> Closed);
     Some (case self of
             Established _ rx_state _ _ \<Rightarrow> rx_state = ChannelState.Closed
           | TimeWait \<Rightarrow> True
           | _ \<Rightarrow> False)
   }"

section \<open>Lemmas\<close>

lemma ChannelState_le_simps [simp]:
  "Open \<le> c" "c \<le> ChannelState.Closed" "Fin \<le> Fin" "\<not> Fin \<le> Open"
  "\<not> ChannelState.Closed \<le> Open" "\<not> ChannelState.Closed \<le> Fin"
  by (cases c; simp add: less_eq_ChannelState_def)+

lemma Fin_le_iff: "Fin \<le> c \<longleftrightarrow> c \<noteq> Open"
  by (cases c) simp_all

lemma Closed_le_iff: "ChannelState.Closed \<le> c \<longleftrightarrow> c = ChannelState.Closed"
  by (cases c) simp_all

lemma le_Open_iff: "c \<le> Open \<longleftrightarrow> c = Open"
  by (cases c) simp_all

lemma validate_release [simp]: "debug_validate_transition False s t = Some ()"
  by (simp add: debug_validate_transition_def split: ConnectionState.split)

lemma validate_outside [simp]:
  "(\<nexists>a b c d. s = Established a b c d) \<Longrightarrow> debug_validate_transition dbg s t = Some ()"
  "(\<nexists>a b c d. t = Established a b c d) \<Longrightarrow> debug_validate_transition dbg s t = Some ()"
  by (auto simp: debug_validate_transition_def split: ConnectionState.split)

lemma validate_Established_iff:
  "debug_validate_transition True (Established tx rx cc ca) (Established tx' rx' cc' ca') \<noteq> None
     \<longleftrightarrow> tx \<le> tx' \<and> rx \<le> rx' \<and> (cc \<longrightarrow> cc') \<and> (ca \<longrightarrow> ca') \<and> (cc \<longrightarrow> tx' \<noteq> Open)"
  by (auto simp: debug_validate_transition_def bind_debug_assert_eq_Some le_bool_def Fin_le_iff
      panic_simps)

lemma fin_sent_simps [simp]:
  "fin_sent dbg (Established tx rx cc ca) = Some (tx \<noteq> Open)"
  "fin_sent dbg TimeWait = Some True" "fin_sent dbg SynReceived = Some False"
  "fin_sent dbg SynSent = Some False" "fin_sent dbg Listen = Some False"
  "fin_sent dbg Reset = Some False"
  by (cases tx; simp add: fin_sent_def)+

lemma fin_sent_Closed [simp]:
  "fin_sent True Closed = None" "fin_sent False Closed = Some False"
  by (simp_all add: fin_sent_def debug_assert_def)

lemma guaranteed_clear_simps [simp]:
  "output_buffer_guaranteed_clear dbg (Established tx rx cc ca)
     = Some (rx = ChannelState.Closed)"
  "output_buffer_guaranteed_clear dbg TimeWait = Some True"
  "output_buffer_guaranteed_clear dbg SynReceived = Some False"
  "output_buffer_guaranteed_clear dbg SynSent = Some False"
  "output_buffer_guaranteed_clear dbg Listen = Some False"
  "output_buffer_guaranteed_clear dbg Reset = Some False"
  by (simp_all add: output_buffer_guaranteed_clear_def)

lemma guaranteed_clear_total:
  "s \<noteq> Closed \<Longrightarrow> output_buffer_guaranteed_clear dbg s \<noteq> None"
  by (cases s) simp_all

lemma FULLY_OPEN_queries [simp]:
  "FULLY_OPEN \<noteq> Closed" "FULLY_OPEN \<noteq> Listen" "FULLY_OPEN \<noteq> SynSent" "FULLY_OPEN \<noteq> SynReceived"
  "FULLY_OPEN \<noteq> TimeWait" "FULLY_OPEN \<noteq> Reset"
  by (simp_all add: FULLY_OPEN_def)

end
