(* ===== verification/Tcp_Segment.thy ===== *)
theory Tcp_Segment
  imports Tcp_Prelude
begin

text \<open>
  \<open>src/segment.rs\<close>: 32-bit sequence numbers with wrap-around comparison, the segment
  flags and the segment itself. The comparison functions are characterised by the modular
  distance between two numbers, which is what the receive window, the ACK test and the
  retransmission queue rely on.
\<close>

section \<open>Sequence numbers\<close>

text \<open>\<open>struct SeqN(u32)\<close>, a newtype.\<close>

type_synonym SeqN = u32

definition SeqN_ZERO :: SeqN where
  "SeqN_ZERO = 0"

definition SeqN_new :: "u32 \<Rightarrow> SeqN" where
  "SeqN_new value = value"

definition raw :: "SeqN \<Rightarrow> u32" where
  "raw s = s"

definition wrapping_add :: "SeqN \<Rightarrow> u32 \<Rightarrow> SeqN" where
  "wrapping_add s v = s + v"

definition wrapping_sub :: "SeqN \<Rightarrow> u32 \<Rightarrow> SeqN" where
  "wrapping_sub s v = s - v"

definition in_range_inclusive :: "SeqN \<Rightarrow> SeqN \<Rightarrow> SeqN \<Rightarrow> bool" where
  "in_range_inclusive self start stop =
     (if start = stop then self = start
      else if start < stop then start \<le> self \<and> self \<le> stop
      else start \<le> self \<or> self \<le> stop)"

text \<open>\<open>u32::MAX / 2\<close>\<close>

definition half_range :: u32 where
  "half_range = (- 1) div 2"

definition seqn_lt :: "SeqN \<Rightarrow> SeqN \<Rightarrow> bool" where
  "seqn_lt self other = in_range_inclusive self (wrapping_sub other half_range) other"

definition seqn_lte :: "SeqN \<Rightarrow> SeqN \<Rightarrow> bool" where
  "seqn_lte self other = (self = other \<or> seqn_lt self other)"

section \<open>Flags\<close>

text \<open>
  The \<open>bitflags!\<close> invocation declares a struct over \<open>u16\<close> and its nine bit
  constants. The two operations the crate's code uses on it are the ones the macro's
  documentation gives: \<open>a | b\<close> is the bitwise or, and \<open>a.contains(b)\<close> tells
  whether all bits of \<open>b\<close> are set in \<open>a\<close>.
\<close>

type_synonym SegmentFlags = u16

definition FIN :: SegmentFlags where "FIN = push_bit 0 1"
definition SYN :: SegmentFlags where "SYN = push_bit 1 1"
definition RST :: SegmentFlags where "RST = push_bit 2 1"
definition PSH :: SegmentFlags where "PSH = push_bit 3 1"
definition ACK :: SegmentFlags where "ACK = push_bit 4 1"
definition URG :: SegmentFlags where "URG = push_bit 5 1"
definition ECE :: SegmentFlags where "ECE = push_bit 6 1"
definition CWR :: SegmentFlags where "CWR = push_bit 7 1"
definition NS :: SegmentFlags where "NS = push_bit 8 1"

definition flags_contains :: "SegmentFlags \<Rightarrow> SegmentFlags \<Rightarrow> bool" where
  "flags_contains self other \<longleftrightarrow> self AND other = other"

definition flags_or :: "SegmentFlags \<Rightarrow> SegmentFlags \<Rightarrow> SegmentFlags" where
  "flags_or a b = a OR b"

section \<open>Segments\<close>

record SegmentMeta =
  seqn :: SeqN
  ackn :: SeqN
  window :: u16
  flags :: SegmentFlags
  data :: "u8 list"

definition seq_size :: "SegmentMeta \<Rightarrow> u32" where
  "seq_size seg =
     (let result = as_u32 (length (data seg));
          result = (if flags_contains (flags seg) SYN then result + 1 else result);
          result = (if flags_contains (flags seg) FIN then result + 1 else result)
      in result)"

definition seqn_after :: "SegmentMeta \<Rightarrow> SeqN" where
  "seqn_after seg = wrapping_add (seqn seg) (seq_size seg)"

definition last_seqn :: "SegmentMeta \<Rightarrow> SeqN" where
  "last_seqn seg = wrapping_sub (seqn_after seg) 1"

section \<open>Lemmas on sequence numbers\<close>

lemma u32_bounds: "0 \<le> uint (x::u32)" "uint (x::u32) < 4294967296"
  using uint_lt2p [of x] by simp_all

lemma half_range_val: "half_range = 0x7FFFFFFF"
  by (simp add: half_range_def)

lemma in_range_iff: "in_range_inclusive s a b \<longleftrightarrow> s - a \<le> b - a"
  unfolding in_range_inclusive_def by (auto split: if_splits) uint_arith+

lemma in_range_left [simp]: "in_range_inclusive a a b"
  by (simp add: in_range_iff)

lemma in_range_right [simp]: "in_range_inclusive b a b"
  by (simp add: in_range_iff)

lemma in_range_same: "in_range_inclusive s a a \<longleftrightarrow> s = a"
  by (simp add: in_range_iff)

lemma half_flip: "0x7FFFFFFF - (d::u32) \<le> 0x7FFFFFFF \<longleftrightarrow> d \<le> 0x7FFFFFFF"
  by uint_arith

lemma seqn_lt_iff: "seqn_lt x y \<longleftrightarrow> y - x \<le> half_range"
proof -
  have "seqn_lt x y \<longleftrightarrow> half_range - (y - x) \<le> half_range"
    by (simp add: seqn_lt_def in_range_iff wrapping_sub_def algebra_simps)
  then show ?thesis by (simp only: half_range_val half_flip)
qed

lemma seqn_lte_iff: "seqn_lte x y \<longleftrightarrow> y - x \<le> half_range"
  by (auto simp: seqn_lte_def seqn_lt_iff)

lemma seqn_lte_unat: "seqn_lte x y \<longleftrightarrow> unat (y - x) < 2 ^ 31"
  by (auto simp: seqn_lte_iff half_range_val word_le_nat_alt)

lemma seqn_lte_refl [simp]: "seqn_lte x x"
  by (simp add: seqn_lte_def)

text \<open>The same comparison over the integers, where linear arithmetic decides it.\<close>

lemma seqn_lte_int:
  "seqn_lte x y \<longleftrightarrow>
     (let d = uint y - uint x in if 0 \<le> d then d < 2147483648 else d < - 2147483648)"
  using u32_bounds [of x] u32_bounds [of y] unfolding seqn_lte_iff half_range_val
  by (auto simp: word_le_def uint_sub_if' Let_def)

lemma seqn_lte_antisym: "seqn_lte x y \<Longrightarrow> seqn_lte y x \<Longrightarrow> x = y"
  using u32_bounds [of x] u32_bounds [of y]
  unfolding seqn_lte_int Let_def word_uint_eq_iff
  by (simp split: if_splits)

lemma seqn_lte_window_iff:
  assumes "x - base \<le> half_range" and "y - base \<le> half_range"
  shows "seqn_lte x y \<longleftrightarrow> x - base \<le> y - base"
  using assms unfolding seqn_lte_int half_range_val Let_def word_le_def
  by (auto simp: uint_sub_if' split: if_splits)
    (insert u32_bounds [of x] u32_bounds [of y] u32_bounds [of base], linarith)+

lemma u32_minus_nat:
  "n < 2 ^ 32 \<Longrightarrow> unat (d - as_u32 n) = (if n \<le> unat d then unat d - n else unat d + 2 ^ 32 - n)"
  by (simp add: unat_sub_if' unat_of_nat_u32)

lemma u32_sub_step:
  assumes "n < 2 ^ 32"
  shows "unat (a - (p + as_u32 n)) = (if n \<le> unat (a - p) then unat (a - p) - n
           else unat (a - p) + 2 ^ 32 - n)"
  using u32_minus_nat [OF assms, of "a - p"] by (simp add: diff_diff_eq)

lemma seqn_lt_unat: "seqn_lt x y \<longleftrightarrow> unat (y - x) < 2 ^ 31"
  using seqn_lte_unat [of x y] by (simp add: seqn_lt_iff seqn_lte_iff)

lemma unat_ucast_u16: "unat (ucast (w::u16) :: u32) = unat w"
  using unsigned_less [of w, where ?'a = nat]
  by (simp add: unsigned_ucast_eq take_bit_nat_eq_self)

lemma in_range_offset:
  assumes "in_range_inclusive a u q" and "unat (u - p) \<le> unat (q - p)"
  shows "unat (a - p) \<le> unat (q - p) \<and> unat (u - p) \<le> unat (a - p)"
  using assms unfolding in_range_iff word_le_nat_alt [symmetric] by uint_arith

section \<open>Lemmas on flags\<close>

text \<open>
  What the rest of the crate needs of the \<open>bitflags!\<close> operations: \<open>contains\<close> is
  reflexive and containing a union is containing both parts. The other direction the code
  uses, that a union contains its parts, follows.
\<close>

locale flag_set =
  fixes contains :: "'f \<Rightarrow> 'f \<Rightarrow> bool"
    and union :: "'f \<Rightarrow> 'f \<Rightarrow> 'f"
  assumes contains_refl: "contains a a"
    and contains_union: "contains a (union b c) \<longleftrightarrow> contains a b \<and> contains a c"
begin

lemma union_contains_left: "contains (union a b) a"
  using contains_refl [of "union a b"] by (simp add: contains_union)

lemma union_contains_right: "contains (union a b) b"
  using contains_refl [of "union a b"] by (simp add: contains_union)

lemma contains_union_swap: "contains a (union b c) \<longleftrightarrow> contains a (union c b)"
  by (auto simp: contains_union)

end

interpretation flag_bits: flag_set flags_contains flags_or
  by unfold_locales (auto simp: flags_contains_def flags_or_def bit_eq_iff bit_simps)

named_theorems flag_simps

lemmas flag_bit_defs = FIN_def SYN_def RST_def ACK_def flags_contains_def flags_or_def

lemma contains_SYN [flag_simps]:
  "flags_contains SYN SYN" "\<not> flags_contains SYN FIN" "\<not> flags_contains SYN RST"
  "\<not> flags_contains SYN ACK"
  by (simp_all add: flag_bit_defs)

lemma contains_ACK [flag_simps]:
  "flags_contains ACK ACK" "\<not> flags_contains ACK FIN" "\<not> flags_contains ACK RST"
  "\<not> flags_contains ACK SYN"
  by (simp_all add: flag_bit_defs)

lemma contains_RST [flag_simps]:
  "flags_contains RST RST" "\<not> flags_contains RST FIN" "\<not> flags_contains RST SYN"
  "\<not> flags_contains RST ACK"
  by (simp_all add: flag_bit_defs)

lemma contains_SYN_ACK [flag_simps]:
  "flags_contains (flags_or SYN ACK) SYN" "flags_contains (flags_or SYN ACK) ACK"
  "\<not> flags_contains (flags_or SYN ACK) FIN" "\<not> flags_contains (flags_or SYN ACK) RST"
  by (simp_all add: flag_bit_defs)

lemma contains_FIN_ACK [flag_simps]:
  "flags_contains (flags_or FIN ACK) FIN" "flags_contains (flags_or FIN ACK) ACK"
  "\<not> flags_contains (flags_or FIN ACK) SYN" "\<not> flags_contains (flags_or FIN ACK) RST"
  by (simp_all add: flag_bit_defs)

lemma contains_both [flag_simps]:
  "flags_contains f (flags_or a b) \<longleftrightarrow> flags_contains f a \<and> flags_contains f b"
  by (rule flag_bits.contains_union)

section \<open>Lemmas on segments\<close>

text \<open>The room a segment takes in sequence space, as a natural number.\<close>

definition seg_len :: "SegmentMeta \<Rightarrow> nat" where
  "seg_len seg =
     length (data seg) + of_bool (flags_contains (flags seg) SYN) +
     of_bool (flags_contains (flags seg) FIN)"

lemma seq_size_of_nat: "seq_size seg = as_u32 (seg_len seg)"
  by (simp add: seq_size_def seg_len_def Let_def)

lemma unat_seq_size: "seg_len seg < 2 ^ 32 \<Longrightarrow> unat (seq_size seg) = seg_len seg"
  by (simp add: seq_size_of_nat unat_of_nat_u32)

lemma seq_size_eq_0: "seg_len seg < 2 ^ 32 \<Longrightarrow> seq_size seg = 0 \<longleftrightarrow> seg_len seg = 0"
  by (metis unat_seq_size unat_eq_zero)

section \<open>Properties\<close>

text \<open>
  C25: the three-way comparison of \<open>in_range_inclusive\<close> (equal, ordered and wrapped
  end points) is the modular interval: \<open>s\<close> is in the range exactly when the distance
  from the start to \<open>s\<close> is at most the distance from the start to the end, both
  taken modulo \<open>2 ^ 32\<close>.
\<close>

theorem in_range_inclusive_is_modular_interval:
  "in_range_inclusive s a b \<longleftrightarrow> unat (s - a) \<le> unat (b - a)"
  by (simp add: in_range_iff word_le_nat_alt)

text \<open>
  C26: \<open>SeqN::lt\<close> holds exactly when the right-hand number is less than half the
  sequence space ahead, zero included: it is not strict, it coincides with
  \<open>SeqN::lte\<close>, and a number is always \<open>lt\<close> itself.
\<close>

theorem seqn_lt_is_not_strict:
  "(seqn_lt x y \<longleftrightarrow> unat (y - x) < 2 ^ 31) \<and> seqn_lt x y = seqn_lte x y \<and> seqn_lt x x"
  by (simp add: seqn_lt_iff seqn_lte_iff half_range_val word_le_nat_alt) arith

text \<open>
  Within any half of the sequence space (all numbers at most \<open>2 ^ 31 - 1\<close> past a
  base) \<open>SeqN::lte\<close> is a linear order: it is the order of the distances from the
  base, wherever the 32-bit counter wraps.
\<close>

theorem seqn_lte_linear_on_half:
  assumes "unat (x - base) < 2 ^ 31" and "unat (y - base) < 2 ^ 31"
  shows "(seqn_lte x y \<longleftrightarrow> unat (x - base) \<le> unat (y - base)) \<and>
         (seqn_lte x y \<or> seqn_lte y x) \<and> (seqn_lte x y \<and> seqn_lte y x \<longrightarrow> x = y)"
proof -
  have h: "x - base \<le> half_range" "y - base \<le> half_range"
    using assms by (simp_all add: half_range_val word_le_nat_alt)
  show ?thesis
    using seqn_lte_window_iff [OF h] seqn_lte_window_iff [OF h(2,1)] seqn_lte_antisym [of x y]
    by (auto simp: word_le_nat_alt)
qed

theorem seqn_lte_linear_on_half_witness:
  "unat ((2::SeqN) - 0xFFFFFFFE) < 2 ^ 31 \<and> seqn_lte 0xFFFFFFFF 2 \<and> \<not> seqn_lte 2 0xFFFFFFFF"
proof -
  have "unat ((0xFFFFFFFF::SeqN) - 0xFFFFFFFE) < 2 ^ 31" "unat ((2::SeqN) - 0xFFFFFFFE) < 2 ^ 31"
    by simp_all
  from seqn_lte_linear_on_half [OF this] this show ?thesis by auto
qed

end
