(* ===== verification/Tcp_Event.thy ===== *)
theory Tcp_Event
  imports Tcp_Segment "HOL-Library.Multiset"
begin

text \<open>
  \<open>src/result.rs\<close>, \<open>src/event.rs\<close> and \<open>src/user_data.rs\<close>: the error values,
  the suspended calls with their cookies, and the interface to the library's user.

  The table of suspended calls is a \<open>hashbrown::HashSet\<close>. It is kept as a list without
  duplicates; the order in which the hash table is iterated is not specified, so every
  iteration visits a permutation of that list chosen by a parameter of the model.
\<close>

section \<open>Errors and cookies\<close>

text \<open>\<open>struct Cookie(u64)\<close>, a newtype.\<close>

type_synonym Cookie = u64

definition Cookie_ZERO :: Cookie where
  "Cookie_ZERO = 0"

definition cookie_next :: "bool \<Rightarrow> Cookie \<Rightarrow> Cookie option" where
  "cookie_next dbg self = ovf_add dbg self 1"

datatype Error =
    InvalidStateTransition
  | NotConnected
  | ConnectionReset
  | OutputClosed
  | ConnectionClosing
  | ListenClosed
  | TimedOut
  | Closed
  | Listening
  | EventNotActive
  | RetryAfter Cookie
  | ContinueAfter Cookie

section \<open>Suspended calls\<close>

datatype WaitUntil =
    Established
  | TxQueueEmpty
  | TxClosed
  | RxClosed
  | BothClosed
  | Recv u32
  | Acknowledged SeqN

definition is_Acknowledged :: "WaitUntil \<Rightarrow> bool" where
  "is_Acknowledged w = (case w of Acknowledged _ \<Rightarrow> True | _ \<Rightarrow> False)"

definition is_Recv :: "WaitUntil \<Rightarrow> bool" where
  "is_Recv w = (case w of Recv _ \<Rightarrow> True | _ \<Rightarrow> False)"

record 'e Events =
  suspended :: "('e \<times> Cookie) list"
  next_cookie :: Cookie

definition Events_new :: "'e Events" where
  "Events_new = \<lparr>suspended = [], next_cookie = Cookie_ZERO\<rparr>"

definition hash_insert :: "'a \<Rightarrow> 'a list \<Rightarrow> 'a list" where
  "hash_insert x xs = (if x \<in> set xs then xs else xs @ [x])"

definition new_cookie :: "bool \<Rightarrow> 'e Events \<Rightarrow> (Cookie \<times> 'e Events) option" where
  "new_cookie dbg self = do {
     let result = next_cookie self;
     n \<leftarrow> cookie_next dbg (next_cookie self);
     Some (result, self\<lparr>next_cookie := n\<rparr>)
   }"

definition return_retry_after ::
  "bool \<Rightarrow> 'e \<Rightarrow> 'e Events \<Rightarrow> ((Error + 'r) \<times> 'e Events) option" where
  "return_retry_after dbg until self = do {
     (cookie, self) \<leftarrow> new_cookie dbg self;
     let self = self\<lparr>suspended := hash_insert (until, cookie) (suspended self)\<rparr>;
     Some (Err (RetryAfter cookie), self)
   }"

definition return_continue_after ::
  "bool \<Rightarrow> 'e \<Rightarrow> 'e Events \<Rightarrow> ((Error + 'r) \<times> 'e Events) option" where
  "return_continue_after dbg until self = do {
     (cookie, self) \<leftarrow> new_cookie dbg self;
     let self = self\<lparr>suspended := hash_insert (until, cookie) (suspended self)\<rparr>;
     Some (Err (ContinueAfter cookie), self)
   }"

definition any_suspended :: "('e \<Rightarrow> bool) \<Rightarrow> 'e Events \<Rightarrow> bool" where
  "any_suspended f self = list_ex (\<lambda>(e, _). f e) (suspended self)"

text \<open>
  \<open>suspended.drain_filter(|(wait, _)| f(*wait))\<close>: the cookies removed, in the order the
  table is visited, and the table without them.
\<close>

definition drain_filter ::
  "(('e \<times> Cookie) list \<Rightarrow> ('e \<times> Cookie) list) \<Rightarrow> ('e \<Rightarrow> bool) \<Rightarrow> 'e Events
     \<Rightarrow> Cookie list \<times> 'e Events" where
  "drain_filter order f self =
     (map snd (filter (\<lambda>(wait, _). f wait) (order (suspended self))),
      self\<lparr>suspended := filter (\<lambda>(wait, _). \<not> f wait) (suspended self)\<rparr>)"

section \<open>The user of the library\<close>

text \<open>
  \<open>trait UserData\<close> and \<open>trait UserTime\<close> are implemented by the user. The model keeps
  the history of the calls a socket has made on its user data; what the user's methods
  answer may depend on that history, and is a parameter. \<open>now\<close> is an associated function
  of the time type, and every reading of the clock is followed by an \<open>add_timeout\<close> call,
  so two readings never see the same history.
\<close>

datatype ('a, 't) user_call =
    NewSeqn u32
  | Send 'a SegmentMeta
  | Event Cookie "Error + unit"
  | AddTimeout 't

type_synonym ('a, 't) history = "('a, 't) user_call list"

text \<open>What a history shows of the network and of the caller: segments sent, events delivered.\<close>

fun sent_segments :: "('a, 't) history \<Rightarrow> ('a \<times> SegmentMeta) list" where
  "sent_segments [] = []"
| "sent_segments (Send dst seg # h) = (dst, seg) # sent_segments h"
| "sent_segments (_ # h) = sent_segments h"

fun delivered :: "('a, 't) history \<Rightarrow> (Cookie \<times> (Error + unit)) list" where
  "delivered [] = []"
| "delivered (Event cookie r # h) = (cookie, r) # delivered h"
| "delivered (_ # h) = delivered h"

lemma sent_segments_append [simp]: "sent_segments (h @ h') = sent_segments h @ sent_segments h'"
  by (induction h rule: sent_segments.induct) simp_all

lemma delivered_append [simp]: "delivered (h @ h') = delivered h @ delivered h'"
  by (induction h rule: delivered.induct) simp_all

lemma sent_segments_events [simp]: "sent_segments (map (\<lambda>k. Event k r) ks) = []"
  by (induction ks) simp_all

lemma delivered_events [simp]: "delivered (map (\<lambda>k. Event k r) ks) = map (\<lambda>k. (k, r)) ks"
  by (induction ks) simp_all

lemma delivered_event_map [simp]:
  "delivered (map (\<lambda>x. Event (f x) r) xs) = map (\<lambda>x. (f x, r)) xs"
  by (induction xs) simp_all

lemma sent_event_map [simp]: "sent_segments (map (\<lambda>x. Event (f x) r) xs) = []"
  by (induction xs) simp_all

text \<open>
  The parameters of the model: the build's debug switch, the user's methods and the
  iteration order of the two hash tables of the crate.
\<close>

record ('a, 't) env =
  debug_assertions :: bool
  new_seqn :: "('a, 't) history \<Rightarrow> u32"
  now :: "('a, 't) history \<Rightarrow> 't"
  add_time :: "'t \<Rightarrow> Duration \<Rightarrow> 't"
  wait_order :: "(WaitUntil \<times> Cookie) list \<Rightarrow> (WaitUntil \<times> Cookie) list"
  listen_order :: "(unit \<times> Cookie) list \<Rightarrow> (unit \<times> Cookie) list"

text \<open>An iteration of a hash table visits every element once: the named hypothesis.\<close>

definition visits_all :: "('x list \<Rightarrow> 'x list) \<Rightarrow> bool" where
  "visits_all order \<longleftrightarrow> (\<forall>xs. mset (order xs) = mset xs)"

text \<open>Two concrete instances of the parameters, for the witnesses: a debug and a release build.\<close>

definition demo_env :: "bool \<Rightarrow> (nat, nat) env" where
  "demo_env dbg = \<lparr>debug_assertions = dbg, new_seqn = (\<lambda>h. 1000),
     now = length, add_time = (+), wait_order = rev, listen_order = rev\<rparr>"

lemma demo_env_simps [simp]:
  "debug_assertions (demo_env dbg) = dbg" "new_seqn (demo_env dbg) h = 1000"
  "now (demo_env dbg) h = length h" "add_time (demo_env dbg) t d = t + d"
  "wait_order (demo_env dbg) xs = rev xs" "listen_order (demo_env dbg) ys = rev ys"
  by (simp_all add: demo_env_def)

lemma visits_all_rev: "visits_all rev"
  by (simp add: visits_all_def)

lemma visits_all_demo [simp]:
  "visits_all (wait_order (demo_env dbg))" "visits_all (listen_order (demo_env dbg))"
  by (simp_all add: demo_env_def visits_all_rev)

section \<open>Lemmas on suspended calls\<close>

lemma cookie_next_Some:
  "cookie_next dbg c = Some c' \<Longrightarrow> c' = c + 1"
  by (simp add: cookie_next_def ovf_add_Some)

lemma new_cookie_eq_Some:
  "new_cookie dbg ev = Some (k, ev') \<longleftrightarrow>
     k = next_cookie ev \<and> ev' = ev\<lparr>next_cookie := next_cookie ev + 1\<rparr> \<and>
     \<not> (dbg \<and> 2 ^ 64 \<le> unat (next_cookie ev) + 1)"
  by (auto simp: new_cookie_def cookie_next_def ovf_add_def)

lemma any_suspended_iff: "any_suspended f ev \<longleftrightarrow> (\<exists>(e, k) \<in> set (suspended ev). f e)"
  by (auto simp: any_suspended_def list_ex_iff)

lemma set_hash_insert [simp]: "set (hash_insert x xs) = insert x (set xs)"
  by (auto simp: hash_insert_def)

lemma visits_all_set: "visits_all order \<Longrightarrow> set (order xs) = set xs"
  by (metis visits_all_def mset_eq_setD)

lemma visits_all_mset_filter:
  "visits_all order \<Longrightarrow> mset (filter p (order xs)) = mset (filter p xs)"
  by (simp add: visits_all_def mset_filter)

text \<open>
  Every waiting cookie is below the next one and no cookie waits twice; \<open>Suc\<close> of the next
  cookie is not needed to be below \<open>2 ^ 64\<close>, since a debug build panics first.
\<close>

definition events_wf :: "'e Events \<Rightarrow> bool" where
  "events_wf ev \<longleftrightarrow> distinct (map snd (suspended ev)) \<and>
     (\<forall>k \<in> set (map snd (suspended ev)). unat k < unat (next_cookie ev))"

lemma events_wf_new [simp]: "events_wf Events_new"
  by (simp add: events_wf_def Events_new_def)

lemma unat_cookie_succ:
  "unat (k::Cookie) + 1 < 2 ^ 64 \<Longrightarrow> unat (k + 1) = unat k + 1"
  by (simp add: unat_word_ariths)

end
