(* ===== verification/Tcp_Queue.thy ===== *)
theory Tcp_Queue
  imports Tcp_Prelude
begin

text \<open>
  \<open>src/queue.rs\<close>: the queue of byte blobs under both data buffers. Its contract is a
  byte stream (\<open>byte_stream\<close>): a write appends, a read takes a prefix, whatever the
  boundaries of the blobs.
\<close>

section \<open>Model\<close>

record BlobQueue =
  buffer :: "u8 list list"
  fin :: bool

definition BlobQueue_new :: BlobQueue where
  "BlobQueue_new = \<lparr>buffer = [], fin = False\<rparr>"

definition mark_fin :: "BlobQueue \<Rightarrow> BlobQueue" where
  "mark_fin self = self\<lparr>fin := True\<rparr>"

definition queue_available_bytes :: "BlobQueue \<Rightarrow> nat" where
  "queue_available_bytes self = sum_list (map length (buffer self))"

definition queue_is_empty :: "BlobQueue \<Rightarrow> bool" where
  "queue_is_empty self = (queue_available_bytes self = 0)"

text \<open>The \<open>while let\<close> loop of \<open>read_bytes\<close>, over \<open>result\<close> and \<open>buffer\<close>.\<close>

fun read_loop :: "nat \<Rightarrow> u8 list \<Rightarrow> u8 list list \<Rightarrow> u8 list \<times> u8 list list" where
  "read_loop limit result [] = (result, [])"
| "read_loop limit result (value # buf) =
     (let result = result @ value in
      if limit \<le> length result
      then (take limit result, drop limit result # buf)
      else read_loop limit result buf)"

definition queue_read_bytes :: "nat \<Rightarrow> BlobQueue \<Rightarrow> ((u8 list \<times> bool) \<times> BlobQueue) option" where
  "queue_read_bytes limit self = do {
     _ \<leftarrow> rust_assert (limit \<noteq> 0);
     let (result, buf) = read_loop limit [] (buffer self);
     let self = self\<lparr>buffer := buf\<rparr>;
     let is_done = (length result < limit \<and> fin self);
     Some ((result, is_done), self)
   }"

definition queue_write_bytes :: "u8 list \<Rightarrow> BlobQueue \<Rightarrow> BlobQueue option" where
  "queue_write_bytes bytes self =
     (if bytes = [] then Some self
      else do {
        _ \<leftarrow> rust_assert (\<not> fin self);
        Some (self\<lparr>buffer := buffer self @ [bytes]\<rparr>)
      })"

section \<open>The byte stream\<close>

definition contents :: "BlobQueue \<Rightarrow> u8 list" where
  "contents q = concat (buffer q)"

lemma contents_new [simp]: "contents BlobQueue_new = []"
  by (simp add: contents_def BlobQueue_new_def)

lemma fin_new [simp]: "fin BlobQueue_new = False"
  by (simp add: BlobQueue_new_def)

lemma contents_mark_fin [simp]: "contents (mark_fin q) = contents q"
  by (simp add: contents_def mark_fin_def)

lemma fin_mark_fin [simp]: "fin (mark_fin q)"
  by (simp add: mark_fin_def)

lemma available_bytes_contents: "queue_available_bytes q = length (contents q)"
  by (simp add: queue_available_bytes_def contents_def length_concat)

lemma is_empty_contents: "queue_is_empty q \<longleftrightarrow> contents q = []"
  by (simp add: queue_is_empty_def available_bytes_contents)

lemma read_loop_eq:
  assumes "length result < limit"
  shows "fst (read_loop limit result buf) = take limit (result @ concat buf)"
    and "concat (snd (read_loop limit result buf)) = drop limit (result @ concat buf)"
  using assms by (induction limit result buf rule: read_loop.induct) (auto simp: Let_def not_le)

lemma queue_read_bytes_0 [simp]: "queue_read_bytes 0 q = None"
  by (simp add: queue_read_bytes_def)

lemma queue_read_bytes_Some:
  assumes "0 < limit"
  obtains q' where "queue_read_bytes limit q =
      Some ((take limit (contents q), length (contents q) < limit \<and> fin q), q')"
    and "contents q' = drop limit (contents q)" and "fin q' = fin q"
proof -
  obtain r b where rb: "read_loop limit [] (buffer q) = (r, b)" by fastforce
  then have r: "r = take limit (contents q)" and b: "concat b = drop limit (contents q)"
    using read_loop_eq [of "[]" limit "buffer q"] assms by (simp_all add: contents_def)
  show ?thesis
  proof
    show "queue_read_bytes limit q =
        Some ((take limit (contents q), length (contents q) < limit \<and> fin q),
          q\<lparr>buffer := b\<rparr>)"
      using assms by (auto simp: queue_read_bytes_def rb r min_def)
  qed (use b in \<open>simp_all add: contents_def\<close>)
qed

lemma queue_read_bytesD:
  assumes "queue_read_bytes limit q = Some ((bytes, is_done), q')"
  shows "0 < limit" and "bytes = take limit (contents q)"
    and "is_done \<longleftrightarrow> length (contents q) < limit \<and> fin q"
    and "contents q' = drop limit (contents q)" and "fin q' = fin q"
proof -
  show pos: "0 < limit" using assms by (cases limit) simp_all
  show "bytes = take limit (contents q)" "is_done \<longleftrightarrow> length (contents q) < limit \<and> fin q"
    "contents q' = drop limit (contents q)" "fin q' = fin q"
    by (rule queue_read_bytes_Some [OF pos, of q], use assms in simp)+
qed

lemma queue_write_bytes_eq_Some:
  "queue_write_bytes bytes q = Some q' \<longleftrightarrow>
     (if bytes = [] then q' = q else \<not> fin q \<and> q' = q\<lparr>buffer := buffer q @ [bytes]\<rparr>)"
  by (auto simp: queue_write_bytes_def bind_assert_eq_Some)

lemma queue_write_bytes_eq_None:
  "queue_write_bytes bytes q = None \<longleftrightarrow> bytes \<noteq> [] \<and> fin q"
  by (auto simp: queue_write_bytes_def rust_assert_def)

lemma queue_write_bytesD:
  assumes "queue_write_bytes bytes q = Some q'"
  shows "contents q' = contents q @ bytes" and "fin q' = fin q"
  using assms by (auto simp: queue_write_bytes_eq_Some contents_def split: if_splits)

text \<open>
  The contract of a byte stream: what the two data buffers rely on. \<open>get\<close> and
  \<open>put\<close> are partial; where they return, they act on the abstract stream.
\<close>

locale byte_stream =
  fixes stream :: "'q \<Rightarrow> 'b list"
    and get :: "nat \<Rightarrow> 'q \<Rightarrow> ('b list \<times> 'q) option"
    and put :: "'b list \<Rightarrow> 'q \<Rightarrow> 'q option"
  assumes get_stream: "get n q = Some (bs, q') \<Longrightarrow> stream q = bs @ stream q'"
    and get_limit: "get n q = Some (bs, q') \<Longrightarrow> length bs = min n (length (stream q))"
    and put_stream: "put bs q = Some q' \<Longrightarrow> stream q' = stream q @ bs"
begin

text \<open>A run of writes (\<open>Inl\<close>) and reads (\<open>Inr\<close>), and the bytes get, in order.\<close>

fun run :: "('b list + nat) list \<Rightarrow> 'q \<Rightarrow> ('b list \<times> 'q) option" where
  "run [] q = Some ([], q)"
| "run (Inl bs # ops) q = do { q \<leftarrow> put bs q; run ops q }"
| "run (Inr n # ops) q = do {
     (bs, q) \<leftarrow> get n q;
     (rest, q) \<leftarrow> run ops q;
     Some (bs @ rest, q)
   }"

fun written :: "('b list + nat) list \<Rightarrow> 'b list" where
  "written [] = []"
| "written (Inl bs # ops) = bs @ written ops"
| "written (Inr n # ops) = written ops"

lemma run_preserves_stream:
  "run ops q = Some (out, q') \<Longrightarrow> out @ stream q' = stream q @ written ops"
proof (induction ops arbitrary: q out)
  case Nil
  then show ?case by simp
next
  case (Cons oper ops)
  show ?case
  proof (cases oper)
    case (Inl bs)
    with Cons.prems obtain q1 where "put bs q = Some q1" "run ops q1 = Some (out, q')"
      by (auto simp: bind_eq_Some_conv)
    with Cons.IH [of q1 out] Inl show ?thesis by (simp add: put_stream)
  next
    case (Inr n)
    with Cons.prems obtain bs q1 rest where r: "get n q = Some (bs, q1)"
      and "run ops q1 = Some (rest, q')" and out: "out = bs @ rest"
      by (auto simp: bind_eq_Some_conv)
    with Cons.IH [of q1 rest] Inr get_stream [OF r] show ?thesis by simp
  qed
qed

lemma get_all:
  assumes "get n q = Some (bs, q')" and "length (stream q) \<le> n"
  shows "bs = stream q" and "stream q' = []"
proof -
  from get_stream [OF assms(1)] have "length (stream q) = length bs + length (stream q')"
    by simp
  with get_limit [OF assms(1)] assms(2) have "length (stream q') = 0" by simp
  then show "stream q' = []" by simp
  with get_stream [OF assms(1)] show "bs = stream q" by simp
qed

end

text \<open>The blob queue is a byte stream; its read also reports the end of the stream.\<close>

definition queue_read :: "nat \<Rightarrow> BlobQueue \<Rightarrow> (u8 list \<times> BlobQueue) option" where
  "queue_read limit q = map_option (\<lambda>((bytes, _), q'). (bytes, q')) (queue_read_bytes limit q)"

lemma queue_readD:
  assumes "queue_read limit q = Some (bytes, q')"
  shows "0 < limit" and "bytes = take limit (contents q)" and "contents q' = drop limit (contents q)"
    and "fin q' = fin q"
  using assms by (auto simp: queue_read_def queue_read_bytesD)

interpretation blobs: byte_stream contents queue_read queue_write_bytes
proof (unfold_locales, goal_cases)
  case (1 n q bs q')
  from queue_readD(2,3) [OF 1] show ?case by simp
next
  case (2 n q bs q')
  from queue_readD(2) [OF 2] show ?case by (simp add: min.commute)
next
  case (3 bs q q')
  then show ?case by (rule queue_write_bytesD(1))
qed

section \<open>Properties\<close>

text \<open>
  C21: \<open>read_bytes\<close> refines taking a prefix of the byte stream. For a positive limit it
  never panics, returns the first \<open>limit\<close> bytes (or all there are), leaves the rest in
  order, splitting a blob where needed, keeps the end marker, and reports the end exactly
  when the stream ran out below the limit and the end was marked. For limit 0 it panics.
\<close>

theorem queue_read_bytes_takes_prefix:
  "(limit = 0 \<longrightarrow> queue_read_bytes limit q = None) \<and>
   (limit \<noteq> 0 \<longrightarrow>
     (\<exists>q'. queue_read_bytes limit q =
        Some ((take limit (contents q), length (contents q) < limit \<and> fin q), q') \<and>
        contents q' = drop limit (contents q) \<and> fin q' = fin q))"
proof (cases "limit = 0")
  case False
  then show ?thesis by (metis queue_read_bytes_Some neq0_conv)
qed simp

theorem queue_read_bytes_takes_prefix_witness:
  "queue_read_bytes 3 \<lparr>buffer = [[1, 2], [3, 4]], fin = True\<rparr>
     = Some (([1, 2, 3], False), \<lparr>buffer = [[4]], fin = True\<rparr>) \<and>
   (\<exists>q'. queue_read_bytes 3 \<lparr>buffer = [[1, 2], [3, 4]], fin = True\<rparr>
     = Some (([1, 2, 3], False), q') \<and> contents q' = [4])"
  using queue_read_bytes_takes_prefix [of 3 "\<lparr>buffer = [[1, 2], [3, 4]], fin = True\<rparr>"]
  by (simp add: queue_read_bytes_def contents_def)

text \<open>
  C22: data integrity of the queue. Over any sequence of writes and reads that does not
  panic, the bytes read, in order, followed by the bytes still queued are the bytes queued
  at the start followed by the bytes written: nothing is lost, duplicated or reordered.
\<close>

theorem queue_runs_preserve_the_stream:
  assumes "blobs.run ops q = Some (out, q')"
  shows "out @ contents q' = contents q @ blobs.written ops"
  using assms by (rule blobs.run_preserves_stream)

theorem queue_runs_preserve_the_stream_witness:
  "\<exists>q'. blobs.run [Inl [1, 2], Inl [3, 4, 5], Inr 3, Inl [6], Inr 9] BlobQueue_new
     = Some ([1, 2, 3, 4, 5, 6], q') \<and> [1, 2, 3, 4, 5, 6] @ contents q' = [1, 2, 3, 4, 5, 6]"
proof -
  let ?ops = "[Inl [1, 2], Inl [3, 4, 5], Inr 3, Inl [6], Inr 9]"
  obtain q' where r: "blobs.run ?ops BlobQueue_new = Some ([1, 2, 3, 4, 5, 6], q')"
    by (simp add: queue_read_def queue_read_bytes_def queue_write_bytes_def BlobQueue_new_def)
  from queue_runs_preserve_the_stream [OF r] r show ?thesis by simp
qed

end
