(* ===== verification/Tcp_Options.thy ===== *)
theory Tcp_Options
  imports Tcp_Prelude
begin

text \<open>
  \<open>src/options.rs\<close> and \<open>src/rtt.rs\<close>: the constants of the protocol, the socket
  options and the round-trip timing state. Durations are in nanoseconds.
\<close>

section \<open>Constants and options\<close>

definition MAX_RTO :: Duration where
  "MAX_RTO = from_secs 120"

definition NAGLE_DELAY_DEFAULT :: Duration where
  "NAGLE_DELAY_DEFAULT = 200 * 1000000"

definition MAX_SEGMENT_LIFETIME :: Duration where
  "MAX_SEGMENT_LIFETIME = from_secs 120"

definition MAX_SEGMENT_SIZE :: nat where
  "MAX_SEGMENT_SIZE = 512"

definition SLOW_START_TRESHOLD :: u16 where
  "SLOW_START_TRESHOLD = 512"

definition INITIAL_WINDOW_SIZE :: u16 where
  "INITIAL_WINDOW_SIZE = 0x1000"

record SocketOptions =
  nagle_delay :: Duration

definition SocketOptions_default :: SocketOptions where
  "SocketOptions_default = \<lparr>nagle_delay = 0\<rparr>"

section \<open>Round-trip timings\<close>

text \<open>
  \<open>Duration\<close> arithmetic truncates to nanoseconds on division; the sums and products
  of \<open>update_rtt\<close> panic past \<open>2 ^ 64\<close> seconds.
\<close>

definition duration_absdiff :: "Duration \<Rightarrow> Duration \<Rightarrow> Duration" where
  "duration_absdiff a b = (if b < a then a - b else b - a)"

definition duration_mul :: "nat \<Rightarrow> Duration \<Rightarrow> Duration option" where
  "duration_mul k d = (if k * d < 2 ^ 64 * nanos_per_sec then Some (k * d) else None)"

record Timings =
  rto :: Duration
  srtt :: Duration
  rtt_var :: Duration

definition Timings_default :: Timings where
  "Timings_default = \<lparr>rto = from_secs 1, srtt = 0, rtt_var = 0\<rparr>"

definition update_rtt :: "Duration \<Rightarrow> Timings \<Rightarrow> Timings option" where
  "update_rtt rtt self =
     (if srtt self = 0 then Some (self\<lparr>srtt := rtt, rtt_var := rtt div 2\<rparr>)
      else do {
        v3 \<leftarrow> duration_mul 3 (rtt_var self);
        vs \<leftarrow> duration_add v3 (duration_absdiff (srtt self) rtt);
        let self = self\<lparr>rtt_var := vs div 4\<rparr>;
        s7 \<leftarrow> duration_mul 7 (srtt self);
        ss \<leftarrow> duration_add s7 rtt;
        let self = self\<lparr>srtt := ss div 8\<rparr>;
        let clock_granularity = 0;
        v4 \<leftarrow> duration_mul 4 (rtt_var self);
        sum \<leftarrow> duration_add (srtt self) (max v4 clock_granularity);
        Some (self\<lparr>rto := max (min sum (from_secs 1)) MAX_RTO\<rparr>)
      })"

section \<open>Properties\<close>

text \<open>
  C40: the retransmission timeout does not follow the measurements. While no round-trip time is
  known (\<open>srtt = 0\<close>, as for the first measurement) an update leaves it as it was, 1 s in a
  new connection. Every other update sets it to exactly \<open>MAX_RTO\<close> (120 s), whatever the
  samples: the two clamps \<open>min(1 s)\<close> and \<open>max(MAX_RTO)\<close> are applied to the wrong
  bounds, so the estimate is always replaced by the upper limit.
\<close>

theorem update_rtt_pins_rto_to_MAX_RTO:
  assumes "update_rtt rtt t = Some t'"
  shows "rto t' = (if srtt t = 0 then rto t else MAX_RTO)"
  using assms by (auto simp: update_rtt_def Let_def MAX_RTO_def bind_eq_Some_conv split: if_splits)

theorem update_rtt_pins_rto_to_MAX_RTO_witness:
  "\<exists>t'. update_rtt 30000000 \<lparr>rto = from_secs 1, srtt = 20000000, rtt_var = 10000000\<rparr> = Some t' \<and>
     rto t' = MAX_RTO"
proof -
  let ?t = "\<lparr>rto = from_secs 1, srtt = 20000000, rtt_var = 10000000\<rparr>"
  obtain t' where t': "update_rtt 30000000 ?t = Some t'"
    by (simp add: update_rtt_def duration_mul_def duration_add_def duration_absdiff_def Let_def)
  from update_rtt_pins_rto_to_MAX_RTO [OF t'] t' show ?thesis by simp
qed

end
