(* ===== verification/Tcp_Buffers.thy ===== *)
theory Tcp_Buffers
  imports Tcp_Segment Tcp_Queue Tcp_Options
begin

text \<open>
  \<open>src/rx.rs\<close> and \<open>src/tx.rs\<close>: the receive buffer with its acknowledgement point and
  advertised window, and the transmit buffer with its retransmission queue.
\<close>

section \<open>Receive buffer\<close>

record RxBuffer =
  rx_buffer :: BlobQueue
  ackd :: SeqN
  rx_done :: bool
  rx_window :: u16
  rx_init_seqn :: SeqN

definition RxBuffer_default :: RxBuffer where
  "RxBuffer_default = \<lparr>rx_buffer = BlobQueue_new, ackd = SeqN_ZERO, rx_done = False,
     rx_window = INITIAL_WINDOW_SIZE, rx_init_seqn = SeqN_ZERO\<rparr>"

definition rx_init :: "SeqN \<Rightarrow> RxBuffer \<Rightarrow> RxBuffer" where
  "rx_init s self = self\<lparr>rx_init_seqn := s, ackd := wrapping_add s 1\<rparr>"

definition in_window :: "RxBuffer \<Rightarrow> SeqN \<Rightarrow> bool" where
  "in_window self s = in_range_inclusive s (ackd self)
     (wrapping_sub (wrapping_add (ackd self) (ucast (rx_window self))) 1)"

definition window_size :: "RxBuffer \<Rightarrow> u16" where
  "window_size self = rx_window self"

definition rx_available_bytes :: "RxBuffer \<Rightarrow> nat" where
  "rx_available_bytes self = queue_available_bytes (rx_buffer self)"

definition rx_read_bytes :: "nat \<Rightarrow> RxBuffer \<Rightarrow> (u8 list \<times> RxBuffer) option" where
  "rx_read_bytes limit self = do {
     _ \<leftarrow> rust_assert (\<not> rx_done self);
     ((result, is_fin), q) \<leftarrow> queue_read_bytes limit (rx_buffer self);
     let self = self\<lparr>rx_buffer := q\<rparr>;
     _ \<leftarrow> (if length result < limit then rust_assert is_fin else Some ());
     Some (result, self\<lparr>rx_done := is_fin\<rparr>)
   }"

definition rx_write :: "bool \<Rightarrow> SegmentMeta \<Rightarrow> RxBuffer \<Rightarrow> RxBuffer option" where
  "rx_write dbg seg self = do {
     let self = self\<lparr>ackd := wrapping_add (ackd self) (seq_size seg)\<rparr>;
     self \<leftarrow> (if flags_contains (flags seg) FIN
              then do {
                _ \<leftarrow> debug_assert dbg (\<not> fin (rx_buffer self));
                Some (self\<lparr>rx_buffer := mark_fin (rx_buffer self)\<rparr>)
              }
              else Some self);
     q \<leftarrow> queue_write_bytes (data seg) (rx_buffer self);
     Some (self\<lparr>rx_buffer := q\<rparr>)
   }"

text \<open>
  \<open>av\<close> subtracts \<open>fin() as usize\<close>, which is 0 past the early return, and the
  subtraction at the end is guarded by the comparison before it.
\<close>

definition curr_window :: "RxBuffer \<Rightarrow> u16" where
  "curr_window self =
     (if fin (rx_buffer self) then 0
      else let av = rx_available_bytes self - of_bool (fin (rx_buffer self)) in
        if unat (rx_window self) \<le> av then 0 else rx_window self - as_u16 av)"

section \<open>Transmit buffer\<close>

record TxBuffer =
  tx_queue :: BlobQueue
  re_tx :: "SegmentMeta list"
  unack :: SeqN
  tx_next :: SeqN
  tx_init_seqn :: SeqN
  tx_window :: u16
  last_sent :: "(SeqN \<times> SeqN \<times> u16) option"

definition TxBuffer_default :: TxBuffer where
  "TxBuffer_default = \<lparr>tx_queue = BlobQueue_new, re_tx = [], unack = SeqN_ZERO,
     tx_next = SeqN_ZERO, tx_init_seqn = SeqN_ZERO, tx_window = 0, last_sent = None\<rparr>"

definition tx_init :: "SeqN \<Rightarrow> TxBuffer \<Rightarrow> TxBuffer" where
  "tx_init s self = self\<lparr>tx_init_seqn := s, unack := s, tx_next := s\<rparr>"

definition unack_has_space :: "TxBuffer \<Rightarrow> bool" where
  "unack_has_space self = seqn_lt (tx_next self) (wrapping_add (unack self) (ucast (tx_window self)))"

definition space_available :: "TxBuffer \<Rightarrow> u32" where
  "space_available self =
     (let stop = wrapping_add (unack self) (ucast (tx_window self)) in raw stop - raw (tx_next self))"

definition is_curr_ack :: "TxBuffer \<Rightarrow> SeqN \<Rightarrow> bool" where
  "is_curr_ack self a = (unack self = a)"

definition is_non_ordered_ack :: "TxBuffer \<Rightarrow> SeqN \<Rightarrow> bool" where
  "is_non_ordered_ack self a = (a \<noteq> unack self \<and> in_range_inclusive a (unack self) (tx_next self))"

definition on_send :: "SegmentMeta \<Rightarrow> TxBuffer \<Rightarrow> TxBuffer" where
  "on_send seg self =
     (let self = self\<lparr>last_sent := Some (seqn seg, ackn seg, window seg)\<rparr>;
          self = self\<lparr>tx_next := wrapping_add (tx_next self) (seq_size seg)\<rparr>
      in if seq_size seg \<noteq> 0 then self\<lparr>re_tx := re_tx self @ [seg]\<rparr> else self)"

text \<open>
  The loop of \<open>Connection::clear_re_tx_range\<close> over the retransmission queue: drop
  segments from the front while they end at or before \<open>stop\<close>.
\<close>

fun clear_re_tx_loop :: "SeqN \<Rightarrow> SegmentMeta list \<Rightarrow> SegmentMeta list" where
  "clear_re_tx_loop stop [] = []"
| "clear_re_tx_loop stop (head # rest) =
     (if \<not> seqn_lte (seqn_after head) stop then head # rest else clear_re_tx_loop stop rest)"

section \<open>Lemmas on the receive buffer\<close>

abbreviation rx_stream :: "RxBuffer \<Rightarrow> u8 list" where
  "rx_stream rx \<equiv> contents (rx_buffer rx)"

abbreviation rx_fin :: "RxBuffer \<Rightarrow> bool" where
  "rx_fin rx \<equiv> fin (rx_buffer rx)"

lemma rx_available_stream: "rx_available_bytes rx = length (rx_stream rx)"
  by (simp add: rx_available_bytes_def available_bytes_contents)

lemma rx_default_simps [simp]:
  "rx_stream RxBuffer_default = []" "rx_fin RxBuffer_default = False"
  "ackd RxBuffer_default = 0" "rx_done RxBuffer_default = False"
  "rx_window RxBuffer_default = INITIAL_WINDOW_SIZE"
  by (simp_all add: RxBuffer_default_def SeqN_ZERO_def)

lemma rx_init_simps [simp]:
  "ackd (rx_init s rx) = s + 1" "rx_buffer (rx_init s rx) = rx_buffer rx"
  "rx_done (rx_init s rx) = rx_done rx" "rx_window (rx_init s rx) = rx_window rx"
  by (simp_all add: rx_init_def wrapping_add_def)

lemma unat_curr_window:
  "unat (curr_window rx) =
     (if rx_fin rx then 0 else unat (rx_window rx) - length (rx_stream rx))"
proof (cases "rx_fin rx \<or> unat (rx_window rx) \<le> length (rx_stream rx)")
  case True
  then show ?thesis by (auto simp: curr_window_def rx_available_stream)
next
  case False
  let ?n = "length (rx_stream rx)"
  from False have lt: "?n < unat (rx_window rx)" by simp
  then have "?n < 2 ^ 16"
    using unsigned_less [of "rx_window rx", where ?'a = nat] by simp
  then have n: "unat (as_u16 ?n) = ?n" by (rule unat_of_nat_u16)
  with lt have "unat (rx_window rx - as_u16 ?n) = unat (rx_window rx) - ?n"
    by (simp add: unat_sub_if')
  with False show ?thesis
    by (auto simp: curr_window_def rx_available_stream)
qed

lemma rx_write_cases:
  "rx_write dbg seg rx =
     (if dbg \<and> flags_contains (flags seg) FIN \<and> rx_fin rx \<or>
         data seg \<noteq> [] \<and> (flags_contains (flags seg) FIN \<or> rx_fin rx) then None
      else Some (rx\<lparr>ackd := ackd rx + seq_size seg,
        rx_buffer := \<lparr>buffer = (if data seg = [] then buffer (rx_buffer rx)
                               else buffer (rx_buffer rx) @ [data seg]),
                     fin = (rx_fin rx \<or> flags_contains (flags seg) FIN)\<rparr>\<rparr>))"
  by (cases "rx_buffer rx")
    (auto simp: rx_write_def queue_write_bytes_def mark_fin_def wrapping_add_def Let_def
      debug_assert_def rust_assert_def)

lemma rx_writeD:
  assumes "rx_write dbg seg rx = Some rx'"
  shows "rx_stream rx' = rx_stream rx @ data seg" and "ackd rx' = ackd rx + seq_size seg"
    and "rx_fin rx' \<longleftrightarrow> rx_fin rx \<or> flags_contains (flags seg) FIN"
    and "rx_done rx' = rx_done rx" and "rx_window rx' = rx_window rx"
  using assms by (auto simp: rx_write_cases contents_def split: if_splits)

lemma rx_read_bytesD:
  assumes "rx_read_bytes limit rx = Some (bytes, rx')"
  shows "0 < limit" and "bytes = take limit (rx_stream rx)"
    and "rx_stream rx' = drop limit (rx_stream rx)" and "rx_fin rx' = rx_fin rx"
    and "rx_done rx' \<longleftrightarrow> length (rx_stream rx) < limit" and "ackd rx' = ackd rx"
    and "rx_window rx' = rx_window rx" and "\<not> rx_done rx"
    and "length (rx_stream rx) < limit \<Longrightarrow> rx_fin rx"
proof -
  from assms obtain is_fin q where q: "queue_read_bytes limit (rx_buffer rx) = Some ((bytes, is_fin), q)"
    and rx': "rx' = rx\<lparr>rx_buffer := q, rx_done := is_fin\<rparr>"
    and fin: "length bytes < limit \<longrightarrow> is_fin" and nd: "\<not> rx_done rx"
    by (auto simp: rx_read_bytes_def Let_def bind_eq_Some_conv panic_simps split: if_splits)
  note Q = queue_read_bytesD [OF q]
  show "0 < limit" by (rule Q)
  show "bytes = take limit (rx_stream rx)" by (rule Q)
  show "rx_stream rx' = drop limit (rx_stream rx)" "rx_fin rx' = rx_fin rx" "ackd rx' = ackd rx"
    "rx_window rx' = rx_window rx"
    using Q rx' by simp_all
  show "rx_done rx' \<longleftrightarrow> length (rx_stream rx) < limit" using Q rx' fin by auto
  show "\<not> rx_done rx" by (rule nd)
  show "length (rx_stream rx) < limit \<Longrightarrow> rx_fin rx" using Q fin by auto
qed

lemma rx_read_bytes_eq_None:
  "rx_read_bytes limit rx = None \<longleftrightarrow>
     limit = 0 \<or> rx_done rx \<or> length (rx_stream rx) < limit \<and> \<not> rx_fin rx"
proof (cases "limit = 0")
  case False
  then obtain q where q: "queue_read_bytes limit (rx_buffer rx) =
      Some ((take limit (rx_stream rx), length (rx_stream rx) < limit \<and> rx_fin rx), q)"
    by (metis queue_read_bytes_Some neq0_conv)
  with False show ?thesis
    by (auto simp: rx_read_bytes_def q Let_def rust_assert_def)
qed (simp add: rx_read_bytes_def rust_assert_def)

section \<open>Lemmas on the transmit buffer\<close>

text \<open>
  The retransmission queue is a chain: each segment starts where the one before ends, and
  the last ends at \<open>tx_next\<close> (the comment \<open>Invariant: ordered\<close> of the code). \<open>flight\<close> is
  the sequence space it takes. The comparison of sequence numbers is meaningful as long as
  that stays below \<open>2 ^ 31\<close>.
\<close>

fun re_tx_chain :: "SeqN \<Rightarrow> SegmentMeta list \<Rightarrow> SeqN \<Rightarrow> bool" where
  "re_tx_chain start [] stop \<longleftrightarrow> start = stop"
| "re_tx_chain start (seg # segs) stop \<longleftrightarrow>
     seqn seg = start \<and> seg_len seg \<noteq> 0 \<and> re_tx_chain (seqn_after seg) segs stop"

definition flight :: "SegmentMeta list \<Rightarrow> nat" where
  "flight segs = sum_list (map seg_len segs)"

lemma flight_simps [simp]: "flight [] = 0" "flight (s # ss) = seg_len s + flight ss"
  "flight (xs @ ys) = flight xs + flight ys" by (simp_all add: flight_def)

lemma chain_append: "re_tx_chain p (xs @ ys) q \<longleftrightarrow> (\<exists>m. re_tx_chain p xs m \<and> re_tx_chain m ys q)"
  by (induction xs arbitrary: p) auto

lemma chain_stop: "re_tx_chain p segs q \<Longrightarrow> q = p + as_u32 (flight segs)"
proof (induction segs arbitrary: p)
  case (Cons seg segs)
  then have "q = seqn_after seg + as_u32 (flight segs)" and "seqn seg = p" by simp_all
  then show ?case by (simp add: seqn_after_def wrapping_add_def seq_size_of_nat)
qed simp

lemma clear_re_tx_loop_spec:
  assumes "re_tx_chain p segs stop" and "flight segs < 2 ^ 31" and "unat (a - p) \<le> flight segs"
  shows "\<exists>acked. segs = acked @ clear_re_tx_loop a segs \<and> flight acked \<le> unat (a - p) \<and>
      (clear_re_tx_loop a segs \<noteq> [] \<longrightarrow>
         unat (a - p) < flight acked + seg_len (hd (clear_re_tx_loop a segs))) \<and>
      re_tx_chain (p + as_u32 (flight acked)) (clear_re_tx_loop a segs) stop"
  using assms
proof (induction segs arbitrary: p)
  case Nil
  then show ?case by simp
next
  case (Cons seg segs)
  let ?n = "seg_len seg" and ?d = "unat (a - p)"
  have after: "seqn_after seg = p + as_u32 ?n"
    using Cons.prems by (simp add: seqn_after_def wrapping_add_def seq_size_of_nat)
  have n: "?n < 2 ^ 31" using Cons.prems(2) by simp
  have dist: "unat (a - seqn_after seg) = (if ?n \<le> ?d then ?d - ?n else ?d + 2 ^ 32 - ?n)"
    using u32_sub_step [of ?n a p] n after by simp
  show ?case
  proof (cases "?n \<le> ?d")
    case False
    then have "\<not> seqn_lte (seqn_after seg) a"
      using dist n by (simp add: seqn_lte_unat)
    then show ?thesis using False Cons.prems by (intro exI [of _ "[]"]) simp
  next
    case True
    then have lte: "seqn_lte (seqn_after seg) a"
      using dist Cons.prems(2,3) by (simp add: seqn_lte_unat)
    have "\<exists>acked. segs = acked @ clear_re_tx_loop a segs \<and>
        flight acked \<le> unat (a - seqn_after seg) \<and>
        (clear_re_tx_loop a segs \<noteq> [] \<longrightarrow>
           unat (a - seqn_after seg) < flight acked + seg_len (hd (clear_re_tx_loop a segs))) \<and>
        re_tx_chain (seqn_after seg + as_u32 (flight acked)) (clear_re_tx_loop a segs) stop"
      by (rule Cons.IH) (use Cons.prems dist True in auto)
    then obtain acked where A: "segs = acked @ clear_re_tx_loop a segs"
        "flight acked \<le> ?d - ?n"
        "clear_re_tx_loop a segs \<noteq> [] \<longrightarrow>
           ?d - ?n < flight acked + seg_len (hd (clear_re_tx_loop a segs))"
        "re_tx_chain (seqn_after seg + as_u32 (flight acked)) (clear_re_tx_loop a segs) stop"
      using dist True by auto
    show ?thesis
      by (rule exI [of _ "seg # acked"])
        (use A lte True after in \<open>auto simp: add.assoc\<close>)
  qed
qed

definition tx_start :: "TxBuffer \<Rightarrow> SeqN" where
  "tx_start tx = (case re_tx tx of [] \<Rightarrow> tx_next tx | seg # _ \<Rightarrow> seqn seg)"

definition tx_wf :: "TxBuffer \<Rightarrow> bool" where
  "tx_wf tx \<longleftrightarrow> re_tx_chain (tx_start tx) (re_tx tx) (tx_next tx) \<and> flight (re_tx tx) < 2 ^ 31 \<and>
     (case re_tx tx of [] \<Rightarrow> unack tx = tx_next tx
      | seg # _ \<Rightarrow> unat (unack tx - seqn seg) < seg_len seg)"

definition tx_ack :: "SeqN \<Rightarrow> TxBuffer \<Rightarrow> TxBuffer" where
  "tx_ack a tx = tx\<lparr>re_tx := clear_re_tx_loop a (re_tx tx), unack := a\<rparr>"

lemma chain_hd: "re_tx_chain p segs q \<Longrightarrow> p = (case segs of [] \<Rightarrow> q | s # _ \<Rightarrow> seqn s)"
  by (cases segs) auto

lemma tx_wf_start:
  assumes "tx_wf tx"
  shows "unat (unack tx - tx_start tx) \<le> flight (re_tx tx)"
    and "tx_next tx = tx_start tx + as_u32 (flight (re_tx tx))"
  using assms chain_stop [of "tx_start tx" "re_tx tx" "tx_next tx"]
  by (auto simp: tx_wf_def tx_start_def split: list.splits)

lemma tx_ack_wf:
  assumes wf: "tx_wf tx" and a: "in_range_inclusive a (unack tx) (tx_next tx)"
  shows "tx_wf (tx_ack a tx)"
    and "\<exists>acked. re_tx tx = acked @ re_tx (tx_ack a tx) \<and>
           flight acked \<le> unat (a - tx_start tx) \<and>
           (re_tx (tx_ack a tx) \<noteq> [] \<longrightarrow>
             unat (a - tx_start tx) < flight acked + seg_len (hd (re_tx (tx_ack a tx))))"
    and "a = tx_next tx \<Longrightarrow> re_tx (tx_ack a tx) = []"
proof -
  let ?p = "tx_start tx" and ?rest = "clear_re_tx_loop a (re_tx tx)"
  have chain: "re_tx_chain ?p (re_tx tx) (tx_next tx)" and fl: "flight (re_tx tx) < 2 ^ 31"
    using wf by (simp_all add: tx_wf_def)
  have q: "unat (tx_next tx - ?p) = flight (re_tx tx)"
    using tx_wf_start(2) [OF wf] fl by (simp add: unat_of_nat_u32)
  have ad: "unat (a - ?p) \<le> flight (re_tx tx)"
    using in_range_offset [OF a, of ?p] tx_wf_start(1) [OF wf] unfolding q by simp
  obtain acked where A: "re_tx tx = acked @ ?rest" "flight acked \<le> unat (a - ?p)"
      "?rest \<noteq> [] \<longrightarrow> unat (a - ?p) < flight acked + seg_len (hd ?rest)"
      "re_tx_chain (?p + as_u32 (flight acked)) ?rest (tx_next tx)"
    using clear_re_tx_loop_spec [OF chain fl ad] by blast
  have fr: "flight acked + flight ?rest = flight (re_tx tx)"
    using arg_cong [OF A(1), of flight] by simp
  have off: "unat (a - (?p + as_u32 (flight acked))) = unat (a - ?p) - flight acked"
    using u32_sub_step [of "flight acked" a ?p] A(2) fr fl by simp
  show "\<exists>acked. re_tx tx = acked @ re_tx (tx_ack a tx) \<and>
           flight acked \<le> unat (a - tx_start tx) \<and>
           (re_tx (tx_ack a tx) \<noteq> [] \<longrightarrow>
             unat (a - tx_start tx) < flight acked + seg_len (hd (re_tx (tx_ack a tx))))"
    using A by (auto simp: tx_ack_def)
  show "tx_wf (tx_ack a tx)"
  proof (cases ?rest)
    case Nil
    with A(4) have "tx_next tx = ?p + as_u32 (flight acked)" by simp
    moreover from Nil fr ad A(2) have "unat (a - ?p) = flight acked" by simp
    ultimately have "unat (a - tx_next tx) = 0" using off by simp
    then have "a = tx_next tx" by (simp add: unat_eq_zero)
    with Nil show ?thesis by (simp add: tx_wf_def tx_ack_def tx_start_def)
  next
    case (Cons seg segs)
    with A(4) have s: "seqn seg = ?p + as_u32 (flight acked)" by simp
    have "unat (a - seqn seg) < seg_len seg" using off s A(2,3) Cons by simp
    with A(4) s fr fl Cons show ?thesis by (simp add: tx_wf_def tx_ack_def tx_start_def)
  qed
  assume "a = tx_next tx"
  then have eq: "unat (a - ?p) = flight (re_tx tx)" using q by simp
  show "re_tx (tx_ack a tx) = []"
  proof (rule ccontr)
    assume "re_tx (tx_ack a tx) \<noteq> []"
    then obtain seg segs where r: "?rest = seg # segs" by (cases ?rest) (auto simp: tx_ack_def)
    with A(3) fr eq show False by simp
  qed
qed

lemma on_send_wf:
  assumes wf: "tx_wf tx" and s: "seqn seg = tx_next tx"
    and room: "flight (re_tx tx) + seg_len seg < 2 ^ 31"
  shows "tx_wf (on_send seg tx)"
    and "re_tx (on_send seg tx) = re_tx tx @ (if seg_len seg = 0 then [] else [seg])"
    and "tx_next (on_send seg tx) = tx_next tx + as_u32 (seg_len seg)"
    and "tx_queue (on_send seg tx) = tx_queue tx"
proof -
  have z: "seq_size seg = 0 \<longleftrightarrow> seg_len seg = 0" using room by (intro seq_size_eq_0) simp
  show "re_tx (on_send seg tx) = re_tx tx @ (if seg_len seg = 0 then [] else [seg])"
    using z by (simp add: on_send_def Let_def)
  show "tx_next (on_send seg tx) = tx_next tx + as_u32 (seg_len seg)"
    by (simp add: on_send_def Let_def wrapping_add_def seq_size_of_nat)
  show "tx_queue (on_send seg tx) = tx_queue tx"
    by (simp add: on_send_def Let_def)
  show "tx_wf (on_send seg tx)"
    using wf s room z
    by (cases "re_tx tx") (auto simp: tx_wf_def tx_start_def on_send_def Let_def wrapping_add_def
        chain_append seqn_after_def)
qed

lemma space_available_unat:
  assumes "unat (tx_next tx - unack tx) < 2 ^ 31"
  shows "unat (space_available tx) =
     (let out = unat (tx_next tx - unack tx); w = unat (tx_window tx) in
      if out \<le> w then w - out else w + 2 ^ 32 - out)"
proof -
  let ?out = "unat (tx_next tx - unack tx)"
  have "space_available tx = ucast (tx_window tx) - as_u32 ?out"
    by (simp add: space_available_def wrapping_add_def raw_def)
  then show ?thesis
    using u32_minus_nat [of ?out "ucast (tx_window tx)"] assms by (simp add: Let_def unat_ucast_u16)
qed

lemma unack_has_space_iff:
  assumes "unat (tx_next tx - unack tx) < 2 ^ 31"
  shows "unack_has_space tx \<longleftrightarrow> unat (tx_next tx - unack tx) \<le> unat (tx_window tx)"
proof -
  have "unack_has_space tx \<longleftrightarrow> unat (space_available tx) < 2 ^ 31"
    by (simp add: unack_has_space_def space_available_def raw_def seqn_lt_unat)
  then show ?thesis using space_available_unat [OF assms] assms
   unsigned_less [of "tx_window tx", where ?'a = nat] by (auto simp: Let_def split: if_splits)
qed

section \<open>Properties\<close>

text \<open>
  C19: what \<open>RxBuffer::write\<close> does to an in-order segment. It panics exactly when the
  segment brings data together with or after a FIN, in every build, or (debug builds only) a
  second FIN, with or without data; in every other case it returns and the data is appended to the readable stream, the acknowledgement point advances
  by the room the segment takes in sequence space, and the end is marked by a FIN. A peer
  that puts its last data and its FIN in one segment therefore panics the receiver.
\<close>

theorem rx_write_appends_or_panics:
  "(rx_write dbg seg rx = None \<longleftrightarrow>
      data seg \<noteq> [] \<and> (flags_contains (flags seg) FIN \<or> rx_fin rx) \<or>
      dbg \<and> flags_contains (flags seg) FIN \<and> rx_fin rx) \<and>
   (case rx_write dbg seg rx of
      None \<Rightarrow> True
    | Some rx' \<Rightarrow>
        rx_stream rx' = rx_stream rx @ data seg \<and> ackd rx' = ackd rx + seq_size seg \<and>
        (rx_fin rx' \<longleftrightarrow> rx_fin rx \<or> flags_contains (flags seg) FIN) \<and>
        rx_done rx' = rx_done rx \<and> rx_window rx' = rx_window rx)"
  by (auto simp: rx_write_cases contents_def split: option.split)

text \<open>
  C20: the advertised window is exactly the part of the receive window that unread data
  does not take, 0 when the buffer is over it and 0 after a FIN; the 16-bit subtraction
  never wraps.
\<close>

theorem curr_window_is_free_space:
  "unat (curr_window rx) =
     (if fin (rx_buffer rx) then 0 else unat (rx_window rx) - rx_available_bytes rx)"
  by (simp add: unat_curr_window rx_available_stream)

text \<open>
  C18: acknowledging within the window. For a well-formed transmit buffer and an ACK number
  between the oldest unacknowledged number and the next one, the loop of
  \<open>clear_re_tx_range\<close> removes exactly the queued segments that end at or before the ACK
  (the front part, the first one kept not being fully covered), the buffer stays
  well-formed with the new \<open>unack\<close>, and an ACK of everything empties the queue.
\<close>

theorem ack_removes_exactly_covered_segments:
  assumes "tx_wf tx" and "in_range_inclusive a (unack tx) (tx_next tx)"
  shows "tx_wf (tx\<lparr>re_tx := clear_re_tx_loop a (re_tx tx), unack := a\<rparr>) \<and>
    (\<exists>acked. re_tx tx = acked @ clear_re_tx_loop a (re_tx tx) \<and>
       flight acked \<le> unat (a - tx_start tx) \<and>
       (clear_re_tx_loop a (re_tx tx) \<noteq> [] \<longrightarrow> unat (a - tx_start tx)
          < flight acked + seg_len (hd (clear_re_tx_loop a (re_tx tx))))) \<and>
    (a = tx_next tx \<longrightarrow> clear_re_tx_loop a (re_tx tx) = [])"
  using tx_ack_wf [OF assms] by (auto simp: tx_ack_def)

definition demo_seg :: "SeqN \<Rightarrow> u8 list \<Rightarrow> SegmentMeta" where
  "demo_seg s bytes = \<lparr>seqn = s, ackn = 7, window = 4096, flags = ACK, data = bytes\<rparr>"

definition demo_tx :: TxBuffer where
  "demo_tx = TxBuffer_default\<lparr>re_tx := [demo_seg 0xFFFFFFFE [1, 2, 3], demo_seg 1 [4, 5]],
     unack := 0xFFFFFFFE, tx_next := 3, tx_window := 4096\<rparr>"

lemma demo_tx_wf: "tx_wf demo_tx"
  by (simp add: demo_tx_def demo_seg_def tx_wf_def tx_start_def seg_len_def seqn_after_def
      seq_size_of_nat wrapping_add_def flag_simps)

theorem ack_removes_exactly_covered_segments_witness:
  "tx_wf (demo_tx\<lparr>re_tx := clear_re_tx_loop 2 (re_tx demo_tx), unack := 2\<rparr>) \<and>
   clear_re_tx_loop 2 (re_tx demo_tx) = [demo_seg 1 [4, 5]]"
proof -
  have r: "in_range_inclusive 2 (unack demo_tx) (tx_next demo_tx)"
    by (simp add: demo_tx_def in_range_inclusive_def)
  have "clear_re_tx_loop 2 (re_tx demo_tx) = [demo_seg 1 [4, 5]]"
    by (simp add: demo_tx_def demo_seg_def seqn_after_def seq_size_of_nat seg_len_def
        wrapping_add_def seqn_lte_unat flag_simps unsigned_minus_1_eq_mask mask_eq_exp_minus_1)
  then show ?thesis using ack_removes_exactly_covered_segments [OF demo_tx_wf r] by simp
qed

text \<open>
  Sending keeps the transmit buffer well-formed. A segment sent at \<open>tx_next\<close> that
  leaves less than \<open>2 ^ 31\<close> in flight extends the chain: it is queued for
  retransmission exactly when it takes sequence space, and \<open>tx_next\<close> advances by that.
\<close>

theorem on_send_keeps_chain:
  assumes "tx_wf tx" and "seqn seg = tx_next tx" and "flight (re_tx tx) + seg_len seg < 2 ^ 31"
  shows "tx_wf (on_send seg tx) \<and>
    re_tx (on_send seg tx) = re_tx tx @ (if seg_len seg = 0 then [] else [seg]) \<and>
    tx_next (on_send seg tx) = tx_next tx + as_u32 (seg_len seg)"
  using on_send_wf [OF assms] by simp

theorem on_send_keeps_chain_witness:
  "tx_wf (on_send (demo_seg 3 [6]) demo_tx) \<and> tx_next (on_send (demo_seg 3 [6]) demo_tx) = 4"
proof -
  have "seqn (demo_seg 3 [6]) = tx_next demo_tx"
    "flight (re_tx demo_tx) + seg_len (demo_seg 3 [6]) < 2 ^ 31"
    by (simp_all add: demo_tx_def demo_seg_def seg_len_def flag_simps)
  from on_send_keeps_chain [OF demo_tx_wf this] show ?thesis
    by (simp add: demo_tx_def demo_seg_def seg_len_def flag_simps)
qed

text \<open>
  C24: the space left in the peer's window. With \<open>out\<close> the bytes in flight (less than
  \<open>2 ^ 31\<close>), \<open>space_available\<close> is the window minus \<open>out\<close> as long as the window
  covers them; when the peer has shrunk its window below \<open>out\<close> the subtraction wraps and
  reports more than \<open>2 ^ 31\<close> bytes of space, and the 512-byte cap of \<open>send_ack\<close> is
  then the only limit. \<open>unack_has_space\<close> also accepts a window that is exactly full.
\<close>

theorem space_available_wraps_when_window_shrinks:
  assumes "unat (tx_next tx - unack tx) = out" and "out < 2 ^ 31"
  shows "(out \<le> unat (tx_window tx) \<longrightarrow>
            unat (space_available tx) = unat (tx_window tx) - out) \<and>
         (unat (tx_window tx) < out \<longrightarrow> 2 ^ 31 < unat (space_available tx)) \<and>
         (unack_has_space tx \<longleftrightarrow> out \<le> unat (tx_window tx))"
  using space_available_unat [of tx] unack_has_space_iff [of tx] assms
  by (auto simp: Let_def split: if_splits)

theorem space_available_wraps_when_window_shrinks_witness:
  "unat (space_available demo_tx) = 4091 \<and>
   2 ^ 31 < unat (space_available (demo_tx\<lparr>tx_window := 0\<rparr>))"
proof -
  have "unat (tx_next demo_tx - unack demo_tx) = 5"
    "unat (tx_next (demo_tx\<lparr>tx_window := 0\<rparr>) - unack (demo_tx\<lparr>tx_window := 0\<rparr>)) = 5"
    by (simp_all add: demo_tx_def)
  from this [THEN space_available_wraps_when_window_shrinks] show ?thesis
    by (simp add: demo_tx_def)
qed

end
