(* ===== verification/Tcp_Connection.thy ===== *)
theory Tcp_Connection
  imports Tcp_State Tcp_Event Tcp_Buffers
begin

text \<open>
  The state of \<open>struct Connection\<close> (\<open>src/connection.rs\<close>) and the operations its entry
  points share: \<open>trigger_event\<close>, \<open>set_state\<close>, \<open>clear\<close>, \<open>reset\<close>, the timer
  setters of \<open>src/timers.rs\<close>, the acceptance test of a segment, \<open>clear_re_tx_range\<close>
  and \<open>send_ack\<close>.
\<close>

section \<open>State\<close>

record 't Timers =
  timer_re_tx :: "'t option"
  timer_timewait :: "'t option"
  timer_usertime :: "'t option"

definition Timers_default :: "'t Timers" where
  "Timers_default = \<lparr>timer_re_tx = None, timer_timewait = None, timer_usertime = None\<rparr>"

definition timers_clear :: "'t Timers \<Rightarrow> 't Timers" where
  "timers_clear self = Timers_default"

record ('a, 't) Connection =
  remote :: 'a
  connection_state :: ConnectionState
  dup_ack_count :: u8
  congestion_window :: u16
  tx_buf :: TxBuffer
  rx_buf :: RxBuffer
  timings :: Timings
  exp_backoff :: u64
  timers :: "'t Timers"
  events :: "WaitUntil Events"
  options :: SocketOptions
  user_data :: "('a, 't) history"

text \<open>The history starts with what the user data saw before the connection was made.\<close>

definition Connection_new :: "'a \<Rightarrow> ('a, 't) history \<Rightarrow> ('a, 't) Connection" where
  "Connection_new rem h = \<lparr>remote = rem, connection_state = ConnectionState.Closed,
     dup_ack_count = 0, congestion_window = INITIAL_WINDOW_SIZE, tx_buf = TxBuffer_default,
     rx_buf = RxBuffer_default, timings = Timings_default, exp_backoff = 1,
     timers = Timers_default, events = Events_new, options = SocketOptions_default,
     user_data = h\<rparr>"

text \<open>
  \<open>options_mut\<close> lends the options to the caller: \<open>change\<close> is what the caller makes of them.
\<close>

definition options_mut ::
  "(SocketOptions \<Rightarrow> SocketOptions) \<Rightarrow> ('a, 't) Connection \<Rightarrow> ('a, 't) Connection" where
  "options_mut change self = self\<lparr>options := change (options self)\<rparr>"

section \<open>Calls on the user data\<close>

definition user_send :: "SegmentMeta \<Rightarrow> ('a, 't) Connection \<Rightarrow> ('a, 't) Connection" where
  "user_send seg self = self\<lparr>user_data := user_data self @ [Send (remote self) seg]\<rparr>"

definition user_new_seqn :: "('a, 't) env \<Rightarrow> ('a, 't) Connection \<Rightarrow> u32 \<times> ('a, 't) Connection" where
  "user_new_seqn E self =
     (let v = new_seqn E (user_data self) in (v, self\<lparr>user_data := user_data self @ [NewSeqn v]\<rparr>))"

definition trigger_event ::
  "('a, 't) env \<Rightarrow> (WaitUntil \<Rightarrow> bool) \<Rightarrow> Error + unit \<Rightarrow> ('a, 't) Connection
     \<Rightarrow> ('a, 't) Connection" where
  "trigger_event E f r self =
     (let (cookies, ev) = drain_filter (wait_order E) f (events self)
      in self\<lparr>events := ev, user_data := user_data self @ map (\<lambda>cookie. Event cookie r) cookies\<rparr>)"

section \<open>Timer setters\<close>

definition set_timer_re_tx ::
  "('a, 't) env \<Rightarrow> Duration \<Rightarrow> ('a, 't) Connection \<Rightarrow> ('a, 't) Connection" where
  "set_timer_re_tx E duration self =
     (let deadline = add_time E (now E (user_data self)) duration
      in self\<lparr>timers := (timers self)\<lparr>timer_re_tx := Some deadline\<rparr>,
              user_data := user_data self @ [AddTimeout deadline]\<rparr>)"

definition set_timer_timewait ::
  "('a, 't) env \<Rightarrow> Duration \<Rightarrow> ('a, 't) Connection \<Rightarrow> ('a, 't) Connection" where
  "set_timer_timewait E duration self =
     (let deadline = add_time E (now E (user_data self)) duration
      in self\<lparr>timers := (timers self)\<lparr>timer_timewait := Some deadline\<rparr>,
              user_data := user_data self @ [AddTimeout deadline]\<rparr>)"

definition set_timer_usertime ::
  "('a, 't) env \<Rightarrow> Duration \<Rightarrow> ('a, 't) Connection \<Rightarrow> ('a, 't) Connection" where
  "set_timer_usertime E duration self =
     (let deadline = add_time E (now E (user_data self)) duration
      in self\<lparr>timers := (timers self)\<lparr>timer_usertime := Some deadline\<rparr>,
              user_data := user_data self @ [AddTimeout deadline]\<rparr>)"

section \<open>State changes\<close>

definition clear :: "('a, 't) env \<Rightarrow> ('a, 't) Connection \<Rightarrow> ('a, 't) Connection" where
  "clear E self = trigger_event E (\<lambda>_. True) (Err ConnectionClosing)
     (self\<lparr>connection_state := ConnectionState.Closed, dup_ack_count := 0,
           congestion_window := INITIAL_WINDOW_SIZE, exp_backoff := 1,
           rx_buf := RxBuffer_default, tx_buf := TxBuffer_default,
           timings := Timings_default, timers := Timers_default\<rparr>)"

definition reset :: "('a, 't) env \<Rightarrow> ('a, 't) Connection \<Rightarrow> ('a, 't) Connection" where
  "reset E self = (clear E self)\<lparr>connection_state := Reset\<rparr>"

text \<open>The events of entering or staying in \<open>Established\<close>, part of \<open>set_state\<close>.\<close>

definition established_triggers ::
  "('a, 't) env \<Rightarrow> ('a, 't) Connection \<Rightarrow> ('a, 't) Connection" where
  "established_triggers E self =
     (case connection_state self of
        ConnectionState.Established tx_state rx_state _ _ \<Rightarrow>
          (let self = trigger_event E (\<lambda>w. w = WaitUntil.Established) (Ok ()) self;
               self = (if tx_state = ChannelState.Closed
                       then trigger_event E (\<lambda>w. w = TxClosed) (Ok ()) self else self);
               self = (if rx_state = ChannelState.Closed
                       then trigger_event E (\<lambda>w. w = RxClosed) (Ok ()) self else self);
               self = (if tx_state = ChannelState.Closed \<and> rx_state = ChannelState.Closed
                       then trigger_event E (\<lambda>w. w = BothClosed) (Ok ()) self else self)
           in self)
      | _ \<Rightarrow> self)"

lemma trigger_event_frame [frame_simps, simp]:
  "remote (trigger_event E f r c) = remote c"
  "connection_state (trigger_event E f r c) = connection_state c"
  "dup_ack_count (trigger_event E f r c) = dup_ack_count c"
  "congestion_window (trigger_event E f r c) = congestion_window c"
  "tx_buf (trigger_event E f r c) = tx_buf c"
  "rx_buf (trigger_event E f r c) = rx_buf c"
  "timings (trigger_event E f r c) = timings c"
  "exp_backoff (trigger_event E f r c) = exp_backoff c"
  "timers (trigger_event E f r c) = timers c"
  "options (trigger_event E f r c) = options c"
  by (simp_all add: trigger_event_def drain_filter_def)

lemma established_triggers_frame [frame_simps, simp]:
  "remote (established_triggers E c) = remote c"
  "connection_state (established_triggers E c) = connection_state c"
  "dup_ack_count (established_triggers E c) = dup_ack_count c"
  "congestion_window (established_triggers E c) = congestion_window c"
  "tx_buf (established_triggers E c) = tx_buf c"
  "rx_buf (established_triggers E c) = rx_buf c"
  "timings (established_triggers E c) = timings c"
  "exp_backoff (established_triggers E c) = exp_backoff c"
  "timers (established_triggers E c) = timers c"
  "options (established_triggers E c) = options c"
  by (simp_all add: established_triggers_def Let_def split: ConnectionState.split)

text \<open>
  \<open>set_state\<close> calls itself once, for \<open>TimeWait\<close>, when both channels of a closed
  connection are done.
\<close>

function set_state ::
  "('a, 't) env \<Rightarrow> ConnectionState \<Rightarrow> ('a, 't) Connection \<Rightarrow> ('a, 't) Connection option" where
  "set_state E state self = do {
     _ \<leftarrow> debug_validate_transition (debug_assertions E) (connection_state self) state;
     let self = self\<lparr>connection_state := state\<rparr>;
     cleared \<leftarrow> output_buffer_guaranteed_clear (debug_assertions E) (connection_state self);
     let self = (if cleared then trigger_event E (\<lambda>w. w = TxQueueEmpty) (Ok ()) self else self);
     let self = established_triggers E self;
     case connection_state self of
       ConnectionState.Established ChannelState.Closed ChannelState.Closed True close_active \<Rightarrow>
         if close_active then do {
           self \<leftarrow> set_state E TimeWait self;
           let self = self\<lparr>timers := timers_clear (timers self)\<rparr>;
           Some (set_timer_timewait E (MAX_SEGMENT_LIFETIME * 2) self)
         } else Some (clear E self)
     | _ \<Rightarrow> Some self
   }"
  by pat_completeness auto
termination
  by (relation "measure (\<lambda>(E, state, self).
        case state of ConnectionState.Established _ _ _ _ \<Rightarrow> 1 | _ \<Rightarrow> 0)")
    (auto split: if_splits)

declare set_state.simps [simp del]

section \<open>Acceptance of a segment\<close>

definition check_segment_seq_ok :: "('a, 't) Connection \<Rightarrow> SegmentMeta \<Rightarrow> bool" where
  "check_segment_seq_ok self seg =
     (if curr_window (rx_buf self) = 0
      then seq_size seg = 0 \<and> seqn seg = ackd (rx_buf self)
      else in_window (rx_buf self) (seqn seg) \<and>
        (if seq_size seg = 0 then True
         else in_window (rx_buf self)
           (wrapping_sub (wrapping_add (seqn seg) (seq_size seg)) 1)))"

section \<open>Acknowledged segments\<close>

definition acknowledged_by :: "SeqN \<Rightarrow> WaitUntil \<Rightarrow> bool" where
  "acknowledged_by stop w = (case w of Acknowledged s \<Rightarrow> seqn_lte s stop | _ \<Rightarrow> False)"

definition clear_re_tx_range ::
  "('a, 't) env \<Rightarrow> SeqN \<Rightarrow> ('a, 't) Connection \<Rightarrow> ('a, 't) Connection" where
  "clear_re_tx_range E stop self =
     (let self = trigger_event E (acknowledged_by stop) (Ok ()) self
      in self\<lparr>tx_buf := (tx_buf self)\<lparr>re_tx := clear_re_tx_loop stop (re_tx (tx_buf self))\<rparr>\<rparr>)"

section \<open>Sending\<close>

text \<open>The data and the end marker \<open>send_ack\<close> takes from the transmit queue.\<close>

definition send_ack_take ::
  "('a, 't) env \<Rightarrow> ('a, 't) Connection \<Rightarrow> ((u8 list \<times> bool) \<times> ('a, 't) Connection) option" where
  "send_ack_take E self =
     (let limit = min MAX_SEGMENT_SIZE (unat (space_available (tx_buf self)))
      in if limit = 0 then Some (([], False), self)
         else do {
           ((tx_data, tx_fin), q) \<leftarrow> queue_read_bytes limit (tx_queue (tx_buf self));
           let self = self\<lparr>tx_buf := (tx_buf self)\<lparr>tx_queue := q\<rparr>\<rparr>;
           let self = (if tx_data = [] \<and> \<not> any_suspended is_Acknowledged (events self)
             then trigger_event E (\<lambda>w. w = TxQueueEmpty) (Ok ()) self else self);
           Some ((tx_data, tx_fin), self)
         })"

text \<open>The flags of the segment, with the state change when the FIN goes out.\<close>

definition send_ack_flags ::
  "('a, 't) env \<Rightarrow> bool \<Rightarrow> ('a, 't) Connection \<Rightarrow> (SegmentFlags \<times> ('a, 't) Connection) option" where
  "send_ack_flags E tx_fin self = do {
     sent \<leftarrow> (if tx_fin then fin_sent (debug_assertions E) (connection_state self) else Some True);
     if tx_fin \<and> \<not> sent then do {
       close_called \<leftarrow> state_close_called (connection_state self);
       close_active \<leftarrow> state_close_active (connection_state self);
       self \<leftarrow> set_state E
         (ConnectionState.Established Fin (state_rx (connection_state self)) close_called close_active)
         self;
       Some (flags_or FIN ACK, self)
     } else Some (ACK, self)
   }"

definition send_ack_emit ::
  "('a, 't) env \<Rightarrow> SegmentFlags \<Rightarrow> u8 list \<Rightarrow> ('a, 't) Connection \<Rightarrow> ('a, 't) Connection" where
  "send_ack_emit E fl tx_data self =
     (let needs_resend = (flags_contains fl FIN \<or> tx_data \<noteq> []);
          seg = \<lparr>seqn = tx_next (tx_buf self), ackn = ackd (rx_buf self),
                 window = curr_window (rx_buf self), flags = fl, data = tx_data\<rparr>
      in if seq_size seg = 0 \<and>
            Some (seqn seg, ackn seg, window seg) = last_sent (tx_buf self)
         then self
         else let self = self\<lparr>tx_buf := on_send seg (tx_buf self)\<rparr>;
                  self = user_send seg self
              in if needs_resend then set_timer_re_tx E (rto (timings self)) self else self)"

definition send_ack :: "('a, 't) env \<Rightarrow> ('a, 't) Connection \<Rightarrow> ('a, 't) Connection option" where
  "send_ack E self = do {
     ((tx_data, tx_fin), self) \<leftarrow> send_ack_take E self;
     sent \<leftarrow> fin_sent (debug_assertions E) (connection_state self);
     _ \<leftarrow> (if sent then debug_assert (debug_assertions E) (tx_data = []) else Some ());
     (fl, self) \<leftarrow> send_ack_flags E tx_fin self;
     Some (send_ack_emit E fl tx_data self)
   }"

section \<open>What the primitives leave alone\<close>

lemma user_send_frame [frame_simps, simp]:
  "remote (user_send seg c) = remote c"
  "connection_state (user_send seg c) = connection_state c"
  "dup_ack_count (user_send seg c) = dup_ack_count c"
  "congestion_window (user_send seg c) = congestion_window c"
  "tx_buf (user_send seg c) = tx_buf c"
  "rx_buf (user_send seg c) = rx_buf c"
  "timings (user_send seg c) = timings c"
  "exp_backoff (user_send seg c) = exp_backoff c"
  "timers (user_send seg c) = timers c"
  "events (user_send seg c) = events c"
  "options (user_send seg c) = options c"
  by (simp_all add: user_send_def Let_def)

lemma set_timer_re_tx_frame [frame_simps, simp]:
  "remote (set_timer_re_tx E d c) = remote c"
  "connection_state (set_timer_re_tx E d c) = connection_state c"
  "dup_ack_count (set_timer_re_tx E d c) = dup_ack_count c"
  "congestion_window (set_timer_re_tx E d c) = congestion_window c"
  "tx_buf (set_timer_re_tx E d c) = tx_buf c"
  "rx_buf (set_timer_re_tx E d c) = rx_buf c"
  "timings (set_timer_re_tx E d c) = timings c"
  "exp_backoff (set_timer_re_tx E d c) = exp_backoff c"
  "events (set_timer_re_tx E d c) = events c"
  "options (set_timer_re_tx E d c) = options c"
  by (simp_all add: set_timer_re_tx_def Let_def)

lemma set_timer_timewait_frame [frame_simps, simp]:
  "remote (set_timer_timewait E d c) = remote c"
  "connection_state (set_timer_timewait E d c) = connection_state c"
  "dup_ack_count (set_timer_timewait E d c) = dup_ack_count c"
  "congestion_window (set_timer_timewait E d c) = congestion_window c"
  "tx_buf (set_timer_timewait E d c) = tx_buf c"
  "rx_buf (set_timer_timewait E d c) = rx_buf c"
  "timings (set_timer_timewait E d c) = timings c"
  "exp_backoff (set_timer_timewait E d c) = exp_backoff c"
  "events (set_timer_timewait E d c) = events c"
  "options (set_timer_timewait E d c) = options c"
  by (simp_all add: set_timer_timewait_def Let_def)

lemma set_timer_usertime_frame [frame_simps, simp]:
  "remote (set_timer_usertime E d c) = remote c"
  "connection_state (set_timer_usertime E d c) = connection_state c"
  "dup_ack_count (set_timer_usertime E d c) = dup_ack_count c"
  "congestion_window (set_timer_usertime E d c) = congestion_window c"
  "tx_buf (set_timer_usertime E d c) = tx_buf c"
  "rx_buf (set_timer_usertime E d c) = rx_buf c"
  "timings (set_timer_usertime E d c) = timings c"
  "exp_backoff (set_timer_usertime E d c) = exp_backoff c"
  "events (set_timer_usertime E d c) = events c"
  "options (set_timer_usertime E d c) = options c"
  by (simp_all add: set_timer_usertime_def Let_def)

lemma clear_frame [frame_simps, simp]:
  "remote (clear E c) = remote c" "options (clear E c) = options c"
  "connection_state (clear E c) = ConnectionState.Closed"
  "tx_buf (clear E c) = TxBuffer_default" "rx_buf (clear E c) = RxBuffer_default"
  "timers (clear E c) = Timers_default" "timings (clear E c) = Timings_default"
  "dup_ack_count (clear E c) = 0" "congestion_window (clear E c) = INITIAL_WINDOW_SIZE"
  "exp_backoff (clear E c) = 1"
  by (simp_all add: clear_def)

lemma reset_frame [frame_simps, simp]:
  "remote (reset E c) = remote c" "options (reset E c) = options c"
  "connection_state (reset E c) = Reset"
  "tx_buf (reset E c) = TxBuffer_default" "rx_buf (reset E c) = RxBuffer_default"
  "timers (reset E c) = Timers_default" "events (reset E c) = events (clear E c)"
  "user_data (reset E c) = user_data (clear E c)"
  by (simp_all add: reset_def)

lemma clear_re_tx_range_frame [frame_simps, simp]:
  "remote (clear_re_tx_range E a c) = remote c"
  "connection_state (clear_re_tx_range E a c) = connection_state c"
  "dup_ack_count (clear_re_tx_range E a c) = dup_ack_count c"
  "congestion_window (clear_re_tx_range E a c) = congestion_window c"
  "tx_buf (clear_re_tx_range E a c) = (tx_buf c)\<lparr>re_tx := clear_re_tx_loop a (re_tx (tx_buf c))\<rparr>"
  "rx_buf (clear_re_tx_range E a c) = rx_buf c"
  "timings (clear_re_tx_range E a c) = timings c"
  "exp_backoff (clear_re_tx_range E a c) = exp_backoff c"
  "timers (clear_re_tx_range E a c) = timers c"
  "options (clear_re_tx_range E a c) = options c"
  by (simp_all add: clear_re_tx_range_def Let_def)

section \<open>What the primitives show to the user\<close>

named_theorems history_simps

text \<open>The events a trigger delivers, in the order the table is visited.\<close>

definition hits :: "('a, 't) env \<Rightarrow> (WaitUntil \<Rightarrow> bool) \<Rightarrow> ('a, 't) Connection \<Rightarrow> Cookie list" where
  "hits E f c = map snd (filter (\<lambda>(w, _). f w) (wait_order E (suspended (events c))))"

lemma trigger_event_history [history_simps]:
  "user_data (trigger_event E f r c) = user_data c @ map (\<lambda>k. Event k r) (hits E f c)"
  "next_cookie (events (trigger_event E f r c)) = next_cookie (events c)"
  "suspended (events (trigger_event E f r c)) = filter (\<lambda>(w, _). \<not> f w) (suspended (events c))"
  by (simp_all add: trigger_event_def drain_filter_def hits_def)

lemma user_send_history [history_simps]:
  "user_data (user_send seg c) = user_data c @ [Send (remote c) seg]"
  by (simp add: user_send_def)

lemma set_timer_history [history_simps]:
  "user_data (set_timer_re_tx E d c)
     = user_data c @ [AddTimeout (add_time E (now E (user_data c)) d)]"
  "user_data (set_timer_timewait E d c)
     = user_data c @ [AddTimeout (add_time E (now E (user_data c)) d)]"
  "user_data (set_timer_usertime E d c)
     = user_data c @ [AddTimeout (add_time E (now E (user_data c)) d)]"
  by (simp_all add: set_timer_re_tx_def set_timer_timewait_def set_timer_usertime_def Let_def)

lemma set_timer_timers [simp]:
  "timers (set_timer_re_tx E d c)
     = (timers c)\<lparr>timer_re_tx := Some (add_time E (now E (user_data c)) d)\<rparr>"
  "timers (set_timer_timewait E d c)
     = (timers c)\<lparr>timer_timewait := Some (add_time E (now E (user_data c)) d)\<rparr>"
  by (simp_all add: set_timer_re_tx_def set_timer_timewait_def Let_def)

lemma trigger_event_sent [simp]:
  "sent_segments (user_data (trigger_event E f r c)) = sent_segments (user_data c)"
  by (simp add: history_simps)

lemma established_triggers_sent [simp]:
  "sent_segments (user_data (established_triggers E c)) = sent_segments (user_data c)"
  by (simp add: established_triggers_def Let_def split: ConnectionState.split)

lemma clear_sent [simp]:
  "sent_segments (user_data (clear E c)) = sent_segments (user_data c)"
  by (simp add: clear_def)

lemma clear_re_tx_range_sent [simp]:
  "sent_segments (user_data (clear_re_tx_range E a c)) = sent_segments (user_data c)"
  by (simp add: clear_re_tx_range_def Let_def)

lemma clear_suspended [simp]: "suspended (events (clear E c)) = []"
  by (simp add: clear_def history_simps filter_empty_conv case_prod_beta)

section \<open>State changes\<close>

text \<open>
  \<open>enter_state\<close> is a state change with its events; \<open>set_state\<close> is that, but for the two
  states that reduce further: a closed connection with both channels done.
\<close>

definition out_clear :: "ConnectionState \<Rightarrow> bool" where
  "out_clear s = (case s of ConnectionState.Established _ rx _ _ \<Rightarrow> rx = ChannelState.Closed
     | TimeWait \<Rightarrow> True | _ \<Rightarrow> False)"

definition enter_state ::
  "('a, 't) env \<Rightarrow> ConnectionState \<Rightarrow> ('a, 't) Connection \<Rightarrow> ('a, 't) Connection" where
  "enter_state E s c = established_triggers E
     (if out_clear s then trigger_event E (\<lambda>w. w = TxQueueEmpty) (Ok ()) (c\<lparr>connection_state := s\<rparr>)
      else c\<lparr>connection_state := s\<rparr>)"

lemma enter_state_frame [frame_simps, simp]:
  "remote (enter_state E s c) = remote c" "connection_state (enter_state E s c) = s"
  "dup_ack_count (enter_state E s c) = dup_ack_count c"
  "congestion_window (enter_state E s c) = congestion_window c"
  "tx_buf (enter_state E s c) = tx_buf c" "rx_buf (enter_state E s c) = rx_buf c"
  "timings (enter_state E s c) = timings c" "exp_backoff (enter_state E s c) = exp_backoff c"
  "timers (enter_state E s c) = timers c" "options (enter_state E s c) = options c"
  by (simp_all add: enter_state_def)

lemma enter_state_sent [simp]:
  "sent_segments (user_data (enter_state E s c)) = sent_segments (user_data c)"
  by (simp add: enter_state_def)

definition closing :: "ConnectionState \<Rightarrow> bool" where
  "closing s \<longleftrightarrow> (\<exists>ca. s = ConnectionState.Established ChannelState.Closed ChannelState.Closed True ca)"

lemma guaranteed_clear_eq:
  "s \<noteq> ConnectionState.Closed \<Longrightarrow> output_buffer_guaranteed_clear dbg s = Some (out_clear s)"
  by (cases s) (simp_all add: out_clear_def)

lemma set_state_not_closing:
  assumes "s \<noteq> ConnectionState.Closed" and "\<not> closing s"
  shows "set_state E s c =
    (if debug_validate_transition (debug_assertions E) (connection_state c) s = None then None
     else Some (enter_state E s c))"
  using assms
  by (auto simp: set_state.simps [of E s c] guaranteed_clear_eq Let_def enter_state_def closing_def
      split: ConnectionState.split ChannelState.split bool.split)

lemma set_state_TimeWait [simp]: "set_state E TimeWait c = Some (enter_state E TimeWait c)"
  by (subst set_state_not_closing) (simp_all add: closing_def)

lemma set_state_closing:
  fixes ca :: bool
  defines "s \<equiv> ConnectionState.Established ChannelState.Closed ChannelState.Closed True ca"
  shows "set_state E s c =
    (if debug_validate_transition (debug_assertions E) (connection_state c) s = None then None
     else if ca
     then Some (set_timer_timewait E (MAX_SEGMENT_LIFETIME * 2)
            ((enter_state E TimeWait (enter_state E s c))\<lparr>timers := Timers_default\<rparr>))
     else Some (clear E (enter_state E s c)))"
  unfolding set_state.simps [of E s c] unfolding s_def
  by (cases ca) (auto simp: Let_def enter_state_def [of E "ConnectionState.Established _ _ _ _"]
      timers_clear_def out_clear_def)

lemma set_state_cases:
  assumes "set_state E s c = Some c'" and "s \<noteq> ConnectionState.Closed"
  obtains (plain) "\<not> closing s" "c' = enter_state E s c"
  | (timewait) "s = ConnectionState.Established ChannelState.Closed ChannelState.Closed True True"
      "c' = set_timer_timewait E (MAX_SEGMENT_LIFETIME * 2)
            ((enter_state E TimeWait (enter_state E s c))\<lparr>timers := Timers_default\<rparr>)"
  | (closed) "s = ConnectionState.Established ChannelState.Closed ChannelState.Closed True False"
      "c' = clear E (enter_state E s c)"
proof (cases "closing s")
  case False
  with assms plain show thesis by (simp add: set_state_not_closing split: if_splits)
next
  case True
  then obtain ca where "s = ConnectionState.Established ChannelState.Closed ChannelState.Closed True ca"
    by (auto simp: closing_def)
  with assms(1) timewait closed show thesis
    by (cases ca) (simp_all add: set_state_closing split: if_splits)
qed

end
