(* ===== verification/Tcp_Calls.thy ===== *)
theory Tcp_Calls
  imports Tcp_Connection
begin

text \<open>
  The user's calls on a connection (\<open>src/connection.rs\<close>): connect, send, receive,
  shutdown, close and abort. A call returns a \<open>Result\<close> and the new connection, or panics.
\<close>

section \<open>Suspending a call\<close>

definition retry_after ::
  "('a, 't) env \<Rightarrow> WaitUntil \<Rightarrow> ('a, 't) Connection \<Rightarrow> ((Error + 'r) \<times> ('a, 't) Connection) option" where
  "retry_after E until self = do {
     (r, ev) \<leftarrow> return_retry_after (debug_assertions E) until (events self);
     Some (r, self\<lparr>events := ev\<rparr>)
   }"

definition continue_after ::
  "('a, 't) env \<Rightarrow> WaitUntil \<Rightarrow> ('a, 't) Connection \<Rightarrow> ((Error + 'r) \<times> ('a, 't) Connection) option" where
  "continue_after E until self = do {
     (r, ev) \<leftarrow> return_continue_after (debug_assertions E) until (events self);
     Some (r, self\<lparr>events := ev\<rparr>)
   }"

section \<open>The calls\<close>

definition call_connect ::
  "('a, 't) env \<Rightarrow> ('a, 't) Connection \<Rightarrow> ((Error + unit) \<times> ('a, 't) Connection) option" where
  "call_connect E self =
     (if connection_state self = ConnectionState.Closed \<or> connection_state self = Reset
      then do {
        self \<leftarrow> set_state E SynSent self;
        let (v, self) = user_new_seqn E self;
        let self = self\<lparr>tx_buf := tx_init (SeqN_new v) (tx_buf self)\<rparr>;
        let seg = \<lparr>seqn = tx_init_seqn (tx_buf self), ackn = SeqN_ZERO,
                   window = curr_window (rx_buf self), flags = SYN, data = []\<rparr>;
        let self = user_send seg self;
        let self = self\<lparr>tx_buf := on_send seg (tx_buf self)\<rparr>;
        let self = set_timer_re_tx E (rto (timings self)) self;
        continue_after E WaitUntil.Established self
      }
      else Some (Err InvalidStateTransition, self))"

definition write_tx :: "u8 list \<Rightarrow> ('a, 't) Connection \<Rightarrow> ('a, 't) Connection option" where
  "write_tx bytes self = do {
     q \<leftarrow> queue_write_bytes bytes (tx_queue (tx_buf self));
     Some (self\<lparr>tx_buf := (tx_buf self)\<lparr>tx_queue := q\<rparr>\<rparr>)
   }"

definition call_send ::
  "('a, 't) env \<Rightarrow> u8 list \<Rightarrow> ('a, 't) Connection \<Rightarrow> ((Error + unit) \<times> ('a, 't) Connection) option" where
  "call_send E input_data self = do {
     _ \<leftarrow> rust_assert (input_data \<noteq> []);
     case connection_state self of
       Reset \<Rightarrow> Some (Err ConnectionReset, self)
     | ConnectionState.Closed \<Rightarrow> Some (Err NotConnected, self)
     | Listen \<Rightarrow> Some (Err NotConnected, self)
     | TimeWait \<Rightarrow> Some (Err ConnectionClosing, self)
     | SynSent \<Rightarrow> do {
         let len = as_u32 (length input_data);
         self \<leftarrow> write_tx input_data self;
         continue_after E (Acknowledged (wrapping_add (tx_next (tx_buf self)) len)) self
       }
     | SynReceived \<Rightarrow> do {
         let len = as_u32 (length input_data);
         self \<leftarrow> write_tx input_data self;
         continue_after E (Acknowledged (wrapping_add (tx_next (tx_buf self)) len)) self
       }
     | ConnectionState.Established tx_state _ _ _ \<Rightarrow> do {
         _ \<leftarrow> debug_assert (debug_assertions E) (tx_state = Open);
         self \<leftarrow> write_tx input_data self;
         let avail = queue_available_bytes (tx_queue (tx_buf self));
         self \<leftarrow> (if unack_has_space (tx_buf self) \<and>
             (MAX_SEGMENT_SIZE \<le> avail \<or> (0 < avail \<and> nagle_delay (options self) = 0))
           then send_ack E self else Some self);
         Some (Ok (), self)
       }
   }"

definition recv_available :: "('a, 't) Connection \<Rightarrow> nat" where
  "recv_available self = rx_available_bytes (rx_buf self)"

text \<open>
  \<open>call_recv\<close> fills the caller's buffer: the result is the \<open>Result\<close>, the buffer after
  the call and the connection. \<open>copy_from_slice\<close> panics when the lengths differ.
\<close>

definition call_recv ::
  "('a, 't) env \<Rightarrow> u8 list \<Rightarrow> ('a, 't) Connection
     \<Rightarrow> ((Error + nat) \<times> u8 list \<times> ('a, 't) Connection) option" where
  "call_recv E buf self =
     (let suspend = (\<lambda>until. do {
        (r, self) \<leftarrow> retry_after E until self;
        Some (r, buf, self)
      })
      in case connection_state self of
        Reset \<Rightarrow> Some (Err ConnectionReset, buf, self)
      | ConnectionState.Closed \<Rightarrow> Some (Err NotConnected, buf, self)
      | TimeWait \<Rightarrow> Some (Err ConnectionClosing, buf, self)
      | Listen \<Rightarrow> suspend WaitUntil.Established
      | SynSent \<Rightarrow> suspend WaitUntil.Established
      | SynReceived \<Rightarrow> suspend WaitUntil.Established
      | ConnectionState.Established tx_state rx_state close_called close_active \<Rightarrow>
          (case rx_state of
             ChannelState.Closed \<Rightarrow> Some (Ok 0, buf, self)
           | Open \<Rightarrow>
               if length buf \<le> rx_available_bytes (rx_buf self) then do {
                 (bytes, b) \<leftarrow> rx_read_bytes (length buf) (rx_buf self);
                 let self = self\<lparr>rx_buf := b\<rparr>;
                 _ \<leftarrow> rust_assert (length bytes = length buf);
                 Some (Ok (length bytes), bytes, self)
               } else suspend (Recv (as_u32 (length buf)))
           | Fin \<Rightarrow> do {
               (bytes, b) \<leftarrow> rx_read_bytes (length buf) (rx_buf self);
               let self = self\<lparr>rx_buf := b\<rparr>;
               _ \<leftarrow> rust_assert (length bytes \<le> length buf);
               let out = bytes @ drop (length bytes) buf;
               self \<leftarrow> (if length bytes < length buf
                 then set_state E (ConnectionState.Established tx_state ChannelState.Closed
                        close_called close_active) self
                 else Some self);
               Some (Ok (length bytes), out, self)
             }))"

text \<open>\<open>self.tx.tx.mark_fin(); self.send_ack();\<close>\<close>

definition mark_fin_and_send :: "('a, 't) env \<Rightarrow> ('a, 't) Connection \<Rightarrow> ('a, 't) Connection option" where
  "mark_fin_and_send E self =
     send_ack E (self\<lparr>tx_buf := (tx_buf self)\<lparr>tx_queue := mark_fin (tx_queue (tx_buf self))\<rparr>\<rparr>)"

definition call_shutdown ::
  "('a, 't) env \<Rightarrow> ('a, 't) Connection \<Rightarrow> ((Error + unit) \<times> ('a, 't) Connection) option" where
  "call_shutdown E self =
     (case connection_state self of
        Reset \<Rightarrow> Some (Err ConnectionReset, self)
      | ConnectionState.Closed \<Rightarrow> Some (Err NotConnected, self)
      | TimeWait \<Rightarrow> Some (Err ConnectionClosing, self)
      | Listen \<Rightarrow> Some (Ok (), clear E (trigger_event E (\<lambda>_. True) (Err ConnectionClosing) self))
      | SynSent \<Rightarrow> Some (Ok (), clear E (trigger_event E (\<lambda>_. True) (Err ConnectionClosing) self))
      | SynReceived \<Rightarrow>
          if any_suspended is_Acknowledged (events self)
          then retry_after E TxQueueEmpty self
          else do {
            self \<leftarrow> mark_fin_and_send E self;
            self \<leftarrow> set_state E (ConnectionState.Established Fin Open False True) self;
            Some (Ok (), self)
          }
      | ConnectionState.Established tx_state rx_state close_called _ \<Rightarrow>
          (case tx_state of
             ChannelState.Closed \<Rightarrow> Some (Err ConnectionClosing, self)
           | Fin \<Rightarrow> Some (Err ConnectionClosing, self)
           | Open \<Rightarrow>
               if queue_available_bytes (tx_queue (tx_buf self)) \<noteq> 0 \<or>
                  any_suspended is_Acknowledged (events self)
               then retry_after E TxQueueEmpty self
               else do {
                 self \<leftarrow> (if rx_state = Open
                   then set_state E
                     (ConnectionState.Established tx_state rx_state close_called True) self
                   else Some self);
                 self \<leftarrow> mark_fin_and_send E self;
                 Some (Ok (), self)
               }))"

text \<open>The end of \<open>call_close\<close> on an established connection, once the FIN is out.\<close>

definition close_established ::
  "('a, 't) env \<Rightarrow> bool \<Rightarrow> ('a, 't) Connection \<Rightarrow> ((Error + unit) \<times> ('a, 't) Connection) option" where
  "close_established E close_active self = do {
     let tx_state = state_tx (connection_state self);
     let rx_state = state_rx (connection_state self);
     self \<leftarrow> set_state E (ConnectionState.Established tx_state rx_state True close_active) self;
     if tx_state = Open \<or> tx_state = Fin then continue_after E BothClosed self
     else if rx_state = Open \<or> rx_state = Fin then continue_after E BothClosed self
     else Some (Ok (), self)
   }"

definition call_close ::
  "('a, 't) env \<Rightarrow> ('a, 't) Connection \<Rightarrow> ((Error + unit) \<times> ('a, 't) Connection) option" where
  "call_close E self =
     (case connection_state self of
        Reset \<Rightarrow> Some (Err ConnectionReset, self)
      | ConnectionState.Closed \<Rightarrow> Some (Err NotConnected, self)
      | TimeWait \<Rightarrow> Some (Err ConnectionClosing, self)
      | Listen \<Rightarrow> Some (Ok (), clear E (trigger_event E is_Recv (Err ConnectionClosing) self))
      | SynSent \<Rightarrow> Some (Ok (), clear E (trigger_event E is_Recv (Err ConnectionClosing) self))
      | SynReceived \<Rightarrow>
          if queue_available_bytes (tx_queue (tx_buf self)) \<noteq> 0 \<or>
             any_suspended is_Acknowledged (events self)
          then retry_after E TxQueueEmpty self
          else do {
            self \<leftarrow> mark_fin_and_send E self;
            self \<leftarrow> set_state E (ConnectionState.Established Fin Open True True) self;
            continue_after E BothClosed self
          }
      | ConnectionState.Established tx_state rx_state _ close_active \<Rightarrow>
          (let close_active = (if rx_state = Open then True else close_active)
           in if tx_state = Open then
                if queue_available_bytes (tx_queue (tx_buf self)) \<noteq> 0 \<or>
                   any_suspended is_Acknowledged (events self)
                then retry_after E TxQueueEmpty self
                else do {
                  self \<leftarrow> mark_fin_and_send E self;
                  close_established E close_active self
                }
              else close_established E close_active self))"

definition call_abort ::
  "('a, 't) env \<Rightarrow> ('a, 't) Connection \<Rightarrow> ((Error + unit) \<times> ('a, 't) Connection)" where
  "call_abort E self =
     (let abort_open = (let self = user_send \<lparr>seqn = tx_next (tx_buf self), ackn = SeqN_ZERO,
            window = curr_window (rx_buf self), flags = RST, data = []\<rparr> self
          in (Ok (), clear E (trigger_event E (\<lambda>_. True) (Err ConnectionReset) self)))
      in case connection_state self of
        Reset \<Rightarrow> (Err ConnectionReset, self)
      | ConnectionState.Closed \<Rightarrow> (Err NotConnected, self)
      | Listen \<Rightarrow> (Ok (), clear E (trigger_event E (\<lambda>_. True) (Err ConnectionReset) self))
      | SynSent \<Rightarrow> (Ok (), clear E (trigger_event E (\<lambda>_. True) (Err ConnectionReset) self))
      | SynReceived \<Rightarrow> abort_open
      | ConnectionState.Established _ _ _ _ \<Rightarrow> abort_open
      | TimeWait \<Rightarrow> (Ok (), clear E self))"

end
