(* ===== verification/Tcp_Receive.thy ===== *)
theory Tcp_Receive
  imports Tcp_Connection
begin

text \<open>
  \<open>Connection::on_segment\<close> (\<open>src/connection.rs\<close>), the handler of an incoming segment,
  and \<open>response_to_closed\<close> (\<open>src/lib.rs\<close>). The handler is split along the branches and
  stages of the code; each stage maps to its lines.
\<close>

section \<open>Closed\<close>

text \<open>The outer option is a panic (a data length that does not fit in 32 bits).\<close>

definition response_to_closed :: "SegmentMeta \<Rightarrow> SegmentMeta option option" where
  "response_to_closed seg =
     (if flags_contains (flags seg) RST then Some None
      else if flags_contains (flags seg) ACK then do {
        _ \<leftarrow> rust_assert (length (data seg) < 2 ^ 32);
        Some (Some \<lparr>seqn = SeqN_ZERO, ackn = wrapping_add (seqn seg) (as_u32 (length (data seg))),
          window = 0, flags = flags_or RST ACK, data = []\<rparr>)
      }
      else Some (Some \<lparr>seqn = ackn seg, ackn = SeqN_ZERO, window = 0, flags = RST, data = []\<rparr>))"

definition on_segment_closed ::
  "SegmentMeta \<Rightarrow> ('a, 't) Connection \<Rightarrow> ('a, 't) Connection option" where
  "on_segment_closed seg self = do {
     r \<leftarrow> response_to_closed seg;
     Some (case r of None \<Rightarrow> self | Some resp \<Rightarrow> user_send resp self)
   }"

section \<open>Listen\<close>

definition on_segment_listen ::
  "('a, 't) env \<Rightarrow> SegmentMeta \<Rightarrow> ('a, 't) Connection \<Rightarrow> ('a, 't) Connection option" where
  "on_segment_listen E seg self =
     (if flags_contains (flags seg) RST then Some self
      else if flags_contains (flags seg) ACK then
        Some (user_send \<lparr>seqn = ackn seg, ackn = SeqN_ZERO, window = 0, flags = RST, data = []\<rparr> self)
      else if \<not> flags_contains (flags seg) SYN then Some self
      else do {
        let self = self\<lparr>rx_buf := rx_init (seqn seg) (rx_buf self)\<rparr>;
        let (v, self) = user_new_seqn E self;
        let self = self\<lparr>tx_buf := tx_init (SeqN_new v) (tx_buf self)\<rparr>;
        _ \<leftarrow> rust_assert (data seg = []);
        let self = self\<lparr>tx_buf := (tx_buf self)\<lparr>tx_window := window seg\<rparr>\<rparr>;
        self \<leftarrow> set_state E SynReceived self;
        let seg = \<lparr>seqn = tx_init_seqn (tx_buf self), ackn = ackd (rx_buf self),
                   window = curr_window (rx_buf self), flags = flags_or SYN ACK, data = []\<rparr>;
        let self = set_timer_re_tx E (rto (timings self)) self;
        let self = self\<lparr>tx_buf := on_send seg (tx_buf self)\<rparr>;
        Some (user_send seg self)
      })"

section \<open>SynSent\<close>

definition on_segment_syn_sent ::
  "('a, 't) env \<Rightarrow> SegmentMeta \<Rightarrow> ('a, 't) Connection \<Rightarrow> ('a, 't) Connection option" where
  "on_segment_syn_sent E seg self =
     (if flags_contains (flags seg) ACK \<and>
         \<not> in_range_inclusive (ackn seg) (unack (tx_buf self)) (tx_next (tx_buf self))
      then Some (user_send \<lparr>seqn = ackn seg, ackn = SeqN_ZERO, window = curr_window (rx_buf self),
             flags = RST, data = []\<rparr> self)
      else if flags_contains (flags seg) RST then Some (reset E self)
      else if flags_contains (flags seg) (flags_or SYN ACK) then do {
        let self = self\<lparr>rx_buf := rx_init (seqn seg) (rx_buf self)\<rparr>;
        let self = clear_re_tx_range E (ackn seg) self;
        let self = self\<lparr>tx_buf := (tx_buf self)\<lparr>unack := ackn seg\<rparr>\<rparr>;
        let self = self\<lparr>tx_buf := (tx_buf self)\<lparr>tx_window := window seg\<rparr>\<rparr>;
        if unack (tx_buf self) = wrapping_add (tx_init_seqn (tx_buf self)) 1
        then do {
          self \<leftarrow> set_state E FULLY_OPEN self;
          send_ack E self
        }
        else Some self
      }
      else Some self)"

section \<open>SynReceived, Established, TimeWait\<close>

text \<open>The reply to a segment outside the window.\<close>

definition on_unacceptable :: "SegmentMeta \<Rightarrow> ('a, 't) Connection \<Rightarrow> ('a, 't) Connection" where
  "on_unacceptable seg self =
     (if \<not> flags_contains (flags seg) RST
      then user_send \<lparr>seqn = tx_next (tx_buf self), ackn = ackd (rx_buf self),
             window = curr_window (rx_buf self), flags = ACK, data = []\<rparr> self
      else self)"

definition on_rst :: "('a, 't) env \<Rightarrow> ('a, 't) Connection \<Rightarrow> ('a, 't) Connection option" where
  "on_rst E self =
     (case connection_state self of
        SynReceived \<Rightarrow> set_state E Listen (clear E self)
      | ConnectionState.Established _ _ _ _ \<Rightarrow>
          set_state E Reset (clear E (trigger_event E (\<lambda>_. True) (Err ConnectionReset) self))
      | _ \<Rightarrow> None)"

definition on_syn :: "('a, 't) env \<Rightarrow> ('a, 't) Connection \<Rightarrow> ('a, 't) Connection option" where
  "on_syn E self = do {
     let self = trigger_event E (\<lambda>_. True) (Err ConnectionReset) self;
     let self = user_send \<lparr>seqn = tx_next (tx_buf self), ackn = SeqN_ZERO,
                  window = curr_window (rx_buf self), flags = RST, data = []\<rparr> self;
     set_state E Reset (clear E self)
   }"

definition readable :: "nat \<Rightarrow> WaitUntil \<Rightarrow> bool" where
  "readable available w = (case w of Recv n \<Rightarrow> unat n \<le> available | _ \<Rightarrow> False)"

definition window_update ::
  "bool \<Rightarrow> SegmentMeta \<Rightarrow> ('a, 't) Connection \<Rightarrow> ('a, 't) Connection option" where
  "window_update dbg seg self = do {
     cw \<leftarrow> (if 0 < dup_ack_count self then Some SLOW_START_TRESHOLD
        else if congestion_window self \<le> SLOW_START_TRESHOLD then ovf_mul dbg (congestion_window self) 2
        else ovf_add dbg (congestion_window self) (as_u16 (length (data seg))));
     let self = self\<lparr>congestion_window := cw\<rparr>;
     Some (self\<lparr>tx_buf := (tx_buf self)\<lparr>tx_window := min (window seg) (congestion_window self)\<rparr>\<rparr>)
   }"

text \<open>A valid ACK of something new.\<close>

definition on_new_ack ::
  "('a, 't) env \<Rightarrow> SegmentMeta \<Rightarrow> ('a, 't) Connection \<Rightarrow> ('a, 't) Connection option" where
  "on_new_ack E seg self = do {
     self \<leftarrow> window_update (debug_assertions E) seg self;
     let available = rx_available_bytes (rx_buf self);
     let self = trigger_event E (readable available) (Ok ()) self;
     let self = clear_re_tx_range E (ackn seg) self;
     let self = self\<lparr>tx_buf := (tx_buf self)\<lparr>unack := ackn seg\<rparr>\<rparr>;
     let self = self\<lparr>exp_backoff := 1\<rparr>;
     let self = (if re_tx (tx_buf self) = [] then self\<lparr>timers := (timers self)\<lparr>timer_re_tx := None\<rparr>\<rparr>
                 else set_timer_re_tx E (rto (timings self)) self);
     Some (trigger_event E (acknowledged_by (ackn seg)) (Ok ()) self)
   }"

text \<open>The ACK of our own FIN.\<close>

definition on_ack_of_fin ::
  "('a, 't) env \<Rightarrow> SegmentMeta \<Rightarrow> ('a, 't) Connection \<Rightarrow> ('a, 't) Connection option" where
  "on_ack_of_fin E seg self =
     (case connection_state self of
        ConnectionState.Established tx_state rx_state close_called close_active \<Rightarrow>
          if tx_state = Fin \<and> ackn seg = tx_next (tx_buf self) then do {
            _ \<leftarrow> debug_assert (debug_assertions E) (queue_is_empty (tx_queue (tx_buf self)));
            _ \<leftarrow> debug_assert (debug_assertions E) (re_tx (tx_buf self) = []);
            set_state E (ConnectionState.Established ChannelState.Closed rx_state close_called
              close_active) self
          } else Some self
      | _ \<Rightarrow> Some self)"

text \<open>Storing the data: the flag tells whether the handler goes on to the FIN.\<close>

definition store_segment ::
  "('a, 't) env \<Rightarrow> SegmentMeta \<Rightarrow> ('a, 't) Connection \<Rightarrow> (bool \<times> ('a, 't) Connection) option" where
  "store_segment E seg self =
     (if seqn seg = ackd (rx_buf self) then do {
        b \<leftarrow> rx_write (debug_assertions E) seg (rx_buf self);
        self \<leftarrow> send_ack E (self\<lparr>rx_buf := b\<rparr>);
        Some (True, self)
      }
      else if seqn_lt (seqn seg) (ackd (rx_buf self)) then
        Some (False, user_send \<lparr>seqn = tx_next (tx_buf self), ackn = ackd (rx_buf self),
          window = curr_window (rx_buf self), flags = ACK, data = []\<rparr> self)
      else Some (False, self))"

definition on_ack ::
  "('a, 't) env \<Rightarrow> SegmentMeta \<Rightarrow> ('a, 't) Connection \<Rightarrow> (bool \<times> ('a, 't) Connection) option" where
  "on_ack E seg self = do {
     self \<leftarrow> (if connection_state self = SynReceived \<and>
          in_range_inclusive (ackn seg) (unack (tx_buf self)) (tx_next (tx_buf self))
        then set_state E FULLY_OPEN self else Some self);
     let ack_valid = in_range_inclusive (ackn seg) (unack (tx_buf self)) (tx_next (tx_buf self));
     if \<not> ack_valid then Some (False, self)
     else do {
       self \<leftarrow> (if unack (tx_buf self) \<noteq> ackn seg then on_new_ack E seg self else Some self);
       self \<leftarrow> on_ack_of_fin E seg self;
       store_segment E seg self
     }
   }"

definition on_fin ::
  "('a, 't) env \<Rightarrow> bool \<Rightarrow> ('a, 't) Connection \<Rightarrow> ('a, 't) Connection option" where
  "on_fin E is_non_ordered self = do {
     let self = (if connection_state self = TimeWait then
         (if is_non_ordered
          then (let self = trigger_event E (\<lambda>_. True) (Err ConnectionClosing) self;
                    self = self\<lparr>timers := timers_clear (timers self)\<rparr>
                in set_timer_timewait E (MAX_SEGMENT_LIFETIME * 2) self)
          else self)
       else trigger_event E is_Recv (Ok ()) self);
     case connection_state self of
       SynReceived \<Rightarrow> set_state E (ConnectionState.Established Open Fin False False) self
     | ConnectionState.Established tx_state rx_state close_called close_active \<Rightarrow>
         set_state E (ConnectionState.Established tx_state
           (case rx_state of Open \<Rightarrow> Fin | Fin \<Rightarrow> Fin | ChannelState.Closed \<Rightarrow> Fin)
           close_called close_active) self
     | _ \<Rightarrow> Some self
   }"

definition on_segment_synchronized ::
  "('a, 't) env \<Rightarrow> SegmentMeta \<Rightarrow> ('a, 't) Connection \<Rightarrow> ('a, 't) Connection option" where
  "on_segment_synchronized E seg self =
     (if \<not> check_segment_seq_ok self seg then Some (on_unacceptable seg self)
      else do {
        let self = self\<lparr>tx_buf := (tx_buf self)\<lparr>tx_window := min (window seg) (congestion_window self)\<rparr>\<rparr>;
        if flags_contains (flags seg) RST then on_rst E self
        else if flags_contains (flags seg) SYN then on_syn E self
        else do {
          let is_non_ordered = (if flags_contains (flags seg) ACK
            then is_non_ordered_ack (tx_buf self) (ackn seg) else False);
          (go_on, self) \<leftarrow> (if flags_contains (flags seg) ACK then on_ack E seg self
            else Some (True, self));
          if \<not> go_on then Some self
          else if connection_state self = ConnectionState.Closed \<or>
             connection_state self = Listen \<or> connection_state self = SynSent then Some self
          else if flags_contains (flags seg) FIN then on_fin E is_non_ordered self
          else Some self
        }
      })"

section \<open>The handler\<close>

definition on_segment ::
  "('a, 't) env \<Rightarrow> SegmentMeta \<Rightarrow> ('a, 't) Connection \<Rightarrow> ('a, 't) Connection option" where
  "on_segment E seg self =
     (case connection_state self of
        ConnectionState.Closed \<Rightarrow> on_segment_closed seg self
      | Reset \<Rightarrow> on_segment_closed seg self
      | Listen \<Rightarrow> on_segment_listen E seg self
      | SynSent \<Rightarrow> on_segment_syn_sent E seg self
      | TimeWait \<Rightarrow> on_segment_synchronized E seg self
      | SynReceived \<Rightarrow> on_segment_synchronized E seg self
      | ConnectionState.Established _ _ _ _ \<Rightarrow> on_segment_synchronized E seg self)"

end
