(* ===== verification/Tcp_Timer.thy ===== *)
theory Tcp_Timer
  imports Tcp_Connection
begin

text \<open>
  \<open>src/timers.rs\<close>: the expiry of the retransmission, TIME-WAIT and user timers. The time
  type of the user is a linear order.
\<close>

definition on_timer_re_tx :: "('a, 't) env \<Rightarrow> ('a, 't) Connection \<Rightarrow> ('a, 't) Connection option" where
  "on_timer_re_tx E self =
     (let resend = (case re_tx (tx_buf self) of
          [] \<Rightarrow> Some self
        | seg # _ \<Rightarrow> do {
            b \<leftarrow> ovf_mul (debug_assertions E) (exp_backoff self) 2;
            let self = self\<lparr>exp_backoff := b\<rparr>;
            let self = user_send seg self;
            d \<leftarrow> duration_add (rto (timings self)) (from_secs (unat (exp_backoff self)));
            Some (set_timer_re_tx E d self)
          })
      in case connection_state self of
        Listen \<Rightarrow> resend
      | SynSent \<Rightarrow> resend
      | SynReceived \<Rightarrow> resend
      | ConnectionState.Established _ _ _ _ \<Rightarrow> resend
      | Reset \<Rightarrow> Some self
      | TimeWait \<Rightarrow> None
      | ConnectionState.Closed \<Rightarrow> None)"

definition on_timer_timewait :: "('a, 't) env \<Rightarrow> ('a, 't) Connection \<Rightarrow> ('a, 't) Connection option" where
  "on_timer_timewait E self = do {
     _ \<leftarrow> rust_assert (connection_state self = TimeWait);
     Some (clear E self)
   }"

definition on_timer_usertime :: "('a, 't) env \<Rightarrow> ('a, 't) Connection \<Rightarrow> ('a, 't) Connection" where
  "on_timer_usertime E self = clear E (trigger_event E (\<lambda>_. True) (Err TimedOut) self)"

text \<open>\<open>map_or(false, |t| t <= time)\<close>\<close>

definition expired :: "'t::linorder option \<Rightarrow> 't \<Rightarrow> bool" where
  "expired deadline time = (case deadline of None \<Rightarrow> False | Some t \<Rightarrow> t \<le> time)"

definition on_time_tick ::
  "('a, 't::linorder) env \<Rightarrow> 't \<Rightarrow> ('a, 't) Connection \<Rightarrow> ('a, 't) Connection option" where
  "on_time_tick E time self = do {
     self \<leftarrow> (if expired (timer_re_tx (timers self)) time
       then on_timer_re_tx E (self\<lparr>timers := (timers self)\<lparr>timer_re_tx := None\<rparr>\<rparr>)
       else Some self);
     self \<leftarrow> (if expired (timer_timewait (timers self)) time
       then on_timer_timewait E (self\<lparr>timers := (timers self)\<lparr>timer_timewait := None\<rparr>\<rparr>)
       else Some self);
     Some (if expired (timer_usertime (timers self)) time
       then on_timer_usertime E (self\<lparr>timers := (timers self)\<lparr>timer_usertime := None\<rparr>\<rparr>)
       else self)
   }"

end
