(* ===== verification/Tcp_Account.thy ===== *)
theory Tcp_Account
  imports Tcp_Calls Tcp_Receive Tcp_Timer
begin

text \<open>
  What every internal step of a connection keeps: the remote address, the options, the next
  cookie, the user data's history up to what is appended to it (only segments to the remote
  address are sent), that no suspended call is added, and the cookies: those waiting together
  with those already delivered.
  \<open>evolves\<close> collects this, and is proved once for every operation that suspends no call.
\<close>

section \<open>Evolution\<close>

definition conn_cookies :: "('a, 't) Connection \<Rightarrow> Cookie multiset" where
  "conn_cookies c = mset (map snd (suspended (events c))) + mset (map fst (delivered (user_data c)))"

definition evolves :: "('a, 't) env \<Rightarrow> ('a, 't) Connection \<Rightarrow> ('a, 't) Connection \<Rightarrow> bool" where
  "evolves E c c' \<longleftrightarrow>
     remote c' = remote c \<and> options c' = options c \<and>
     next_cookie (events c') = next_cookie (events c) \<and>
     (\<exists>d. user_data c' = user_data c @ d \<and> (\<forall>(a, seg) \<in> set (sent_segments d). a = remote c)) \<and>
     set (suspended (events c')) \<subseteq> set (suspended (events c)) \<and>
     (visits_all (wait_order E) \<longrightarrow> conn_cookies c' = conn_cookies c)"

lemma evolves_refl [simp, intro!]: "evolves E c c"
  by (simp add: evolves_def)

lemma evolves_trans: "evolves E c0 c \<Longrightarrow> evolves E c c' \<Longrightarrow> evolves E c0 c'"
  by (auto simp: evolves_def)

named_theorems evolves_intros

lemma evolves_quiet:
  assumes "evolves E c0 c" and "remote c' = remote c" and "options c' = options c"
    and "events c' = events c" and "user_data c' = user_data c @ d"
    and "delivered d = []" and "\<forall>(a, seg) \<in> set (sent_segments d). a = remote c"
  shows "evolves E c0 c'"
  by (rule evolves_trans [OF assms(1)]) (use assms in \<open>auto simp: evolves_def conn_cookies_def\<close>)

lemma evolves_updates [evolves_intros]:
  assumes "evolves E c0 c"
  shows "evolves E c0 (c\<lparr>connection_state := s\<rparr>)" "evolves E c0 (c\<lparr>tx_buf := t\<rparr>)"
    "evolves E c0 (c\<lparr>rx_buf := r\<rparr>)" "evolves E c0 (c\<lparr>timers := tm\<rparr>)"
    "evolves E c0 (c\<lparr>timings := ti\<rparr>)" "evolves E c0 (c\<lparr>exp_backoff := b\<rparr>)"
    "evolves E c0 (c\<lparr>congestion_window := w\<rparr>)" "evolves E c0 (c\<lparr>dup_ack_count := k\<rparr>)"
  by (rule evolves_quiet [OF assms, where d = "[]"]; simp)+

lemma evolves_user_send [evolves_intros]: "evolves E c0 c \<Longrightarrow> evolves E c0 (user_send seg c)"
  by (erule evolves_quiet [where d = "[Send (remote c) seg]"]) (simp_all add: history_simps)

lemma evolves_set_timer [evolves_intros]:
  assumes "evolves E c0 c"
  shows "evolves E c0 (set_timer_re_tx E d c)" "evolves E c0 (set_timer_timewait E d c)"
    "evolves E c0 (set_timer_usertime E d c)"
  by (rule evolves_quiet [OF assms, where d = "[AddTimeout (add_time E (now E (user_data c)) d)]"];
      simp add: history_simps)+

lemma mset_filter_split:
  "mset (map g (filter (\<lambda>x. \<not> P x) xs)) + mset (map g (filter P xs)) = mset (map g xs)"
  by (induction xs) auto

lemma evolves_trigger [evolves_intros]:
  assumes "evolves E c0 c"
  shows "evolves E c0 (trigger_event E f r c)"
proof (rule evolves_trans [OF assms])
  have "conn_cookies (trigger_event E f r c) = conn_cookies c" if "visits_all (wait_order E)"
  proof -
    have "mset (hits E f c) = mset (map snd (filter (\<lambda>(w, _). f w) (suspended (events c))))"
      by (simp only: hits_def mset_map visits_all_mset_filter [OF that])
    then show ?thesis
      using mset_filter_split [of snd "\<lambda>(w, _). f w" "suspended (events c)"]
      by (simp add: conn_cookies_def history_simps comp_def case_prod_beta add.commute add.left_commute)
  qed
  then show "evolves E c (trigger_event E f r c)"
    by (simp add: evolves_def history_simps)
qed

lemma evolves_established_triggers [evolves_intros]:
  "evolves E c0 c \<Longrightarrow> evolves E c0 (established_triggers E c)"
  by (auto simp: established_triggers_def Let_def intro!: evolves_intros split: ConnectionState.split)

lemma evolves_clear [evolves_intros]: "evolves E c0 c \<Longrightarrow> evolves E c0 (clear E c)"
  unfolding clear_def by (intro evolves_intros)

lemma evolves_reset [evolves_intros]: "evolves E c0 c \<Longrightarrow> evolves E c0 (reset E c)"
  unfolding reset_def by (intro evolves_intros)

lemma evolves_enter_state [evolves_intros]: "evolves E c0 c \<Longrightarrow> evolves E c0 (enter_state E s c)"
  unfolding enter_state_def by (auto intro!: evolves_intros)

lemma evolves_clear_re_tx_range [evolves_intros]:
  "evolves E c0 c \<Longrightarrow> evolves E c0 (clear_re_tx_range E a c)"
  unfolding clear_re_tx_range_def Let_def by (intro evolves_intros)

lemma evolves_set_state:
  assumes "set_state E s c = Some c'" and "evolves E c0 c" and "s \<noteq> ConnectionState.Closed"
  shows "evolves E c0 c'"
  using assms(1,3)
  by (rule set_state_cases) (use assms(2) in \<open>auto intro!: evolves_intros\<close>)

lemma evolves_send_ack_emit [evolves_intros]:
  "evolves E c0 c \<Longrightarrow> evolves E c0 (send_ack_emit E fl bs c)"
  unfolding send_ack_emit_def Let_def by (auto intro!: evolves_intros)

lemma evolves_send_ack:
  assumes "send_ack E c = Some c'" and "evolves E c0 c"
  shows "evolves E c0 c'"
proof -
  from assms(1) obtain bs fn c1 fl c2 where t: "send_ack_take E c = Some ((bs, fn), c1)"
    and f: "send_ack_flags E fn c1 = Some (fl, c2)" and c': "c' = send_ack_emit E fl bs c2"
    by (auto simp: send_ack_def bind_eq_Some_conv)
  from t have "evolves E c0 c1"
    using assms(2)
    by (auto simp: send_ack_take_def Let_def bind_eq_Some_conv split: if_splits intro!: evolves_intros)
  with f have "evolves E c0 c2"
    by (auto simp: send_ack_flags_def bind_eq_Some_conv split: if_splits intro: evolves_set_state)
  then show ?thesis unfolding c' by (intro evolves_intros)
qed
section \<open>Incoming segments\<close>

lemma evolves_user_new_seqn [evolves_intros]:
  "evolves E c0 c \<Longrightarrow> evolves E c0 (snd (user_new_seqn E c))"
  by (rule evolves_quiet [where d = "[NewSeqn (new_seqn E (user_data c))]"])
    (simp_all add: user_new_seqn_def Let_def)

lemma evolves_on_segment_closed:
  "on_segment_closed seg c = Some c' \<Longrightarrow> evolves E c c'"
  by (auto simp: on_segment_closed_def bind_eq_Some_conv intro!: evolves_intros split: option.split)

lemma evolves_on_segment_listen:
  assumes "on_segment_listen E seg c = Some c'"
  shows "evolves E c c'"
proof -
  obtain v c1 where v: "user_new_seqn E (c\<lparr>rx_buf := rx_init (seqn seg) (rx_buf c)\<rparr>) = (v, c1)"
    by fastforce
  have "evolves E c (snd (user_new_seqn E (c\<lparr>rx_buf := rx_init (seqn seg) (rx_buf c)\<rparr>)))"
    by (intro evolves_intros evolves_refl)
  then have c1: "evolves E c c1" using v by simp
  from assms show ?thesis
    by (auto simp: on_segment_listen_def v Let_def bind_eq_Some_conv split: if_splits
        intro!: evolves_intros c1 elim!: evolves_set_state)
qed

lemma evolves_on_segment_syn_sent:
  "on_segment_syn_sent E seg c = Some c' \<Longrightarrow> evolves E c c'"
  by (auto simp: on_segment_syn_sent_def Let_def bind_eq_Some_conv split: if_splits
      intro!: evolves_intros elim!: evolves_send_ack evolves_set_state)

lemma evolves_on_rst:
  assumes "on_rst E c = Some c'" and "evolves E c0 c"
  shows "evolves E c0 c'"
  using assms
  by (auto simp: on_rst_def split: ConnectionState.splits intro!: evolves_intros
      elim!: evolves_set_state)

lemma evolves_on_syn:
  assumes "on_syn E c = Some c'" and "evolves E c0 c"
  shows "evolves E c0 c'"
  using assms by (auto simp: on_syn_def Let_def intro!: evolves_intros elim!: evolves_set_state)

lemma evolves_window_update:
  "window_update dbg seg c = Some c' \<Longrightarrow> evolves E c0 c \<Longrightarrow> evolves E c0 c'"
  by (auto simp: window_update_def Let_def bind_eq_Some_conv intro!: evolves_intros)

lemma evolves_on_new_ack:
  assumes "on_new_ack E seg c = Some c'" and "evolves E c0 c"
  shows "evolves E c0 c'"
  using assms
  by (auto simp: on_new_ack_def Let_def bind_eq_Some_conv intro!: evolves_intros
      elim!: evolves_window_update)

lemma evolves_on_ack_of_fin:
  assumes "on_ack_of_fin E seg c = Some c'" and "evolves E c0 c"
  shows "evolves E c0 c'"
  using assms
  by (auto simp: on_ack_of_fin_def bind_eq_Some_conv split: ConnectionState.splits if_splits
      elim!: evolves_set_state)

lemma evolves_store_segment:
  assumes "store_segment E seg c = Some (go_on, c')" and "evolves E c0 c"
  shows "evolves E c0 c'"
  using assms
  by (auto simp: store_segment_def bind_eq_Some_conv split: if_splits intro!: evolves_intros
      elim!: evolves_send_ack)

lemma evolves_on_ack:
  assumes "on_ack E seg c = Some (go_on, c')" and "evolves E c0 c"
  shows "evolves E c0 c'"
  using assms
  by (auto simp: on_ack_def Let_def bind_eq_Some_conv FULLY_OPEN_def split: if_splits
      elim!: evolves_store_segment evolves_on_ack_of_fin evolves_on_new_ack evolves_set_state)

lemma evolves_on_fin:
  assumes "on_fin E b c = Some c'" and "evolves E c0 c"
  shows "evolves E c0 c'"
  using assms
  by (auto simp: on_fin_def Let_def split: ConnectionState.splits if_splits
      elim!: evolves_set_state intro!: evolves_intros)

lemma evolves_on_segment_synchronized:
  "on_segment_synchronized E seg c = Some c' \<Longrightarrow> evolves E c c'"
  by (auto simp: on_segment_synchronized_def on_unacceptable_def Let_def bind_eq_Some_conv
      split: if_splits intro!: evolves_intros
      elim!: evolves_on_rst evolves_on_syn evolves_on_ack evolves_on_fin)

lemma evolves_on_segment: "on_segment E seg c = Some c' \<Longrightarrow> evolves E c c'"
  by (auto simp: on_segment_def split: ConnectionState.splits
      intro: evolves_on_segment_closed evolves_on_segment_listen evolves_on_segment_syn_sent
        evolves_on_segment_synchronized)

section \<open>Timers\<close>

lemma evolves_on_timer_re_tx:
  "on_timer_re_tx E c = Some c' \<Longrightarrow> evolves E c0 c \<Longrightarrow> evolves E c0 c'"
  by (auto simp: on_timer_re_tx_def Let_def bind_eq_Some_conv
      split: ConnectionState.splits list.splits intro!: evolves_intros)

lemma evolves_on_time_tick: "on_time_tick E time c = Some c' \<Longrightarrow> evolves E c c'"
  by (auto simp: on_time_tick_def on_timer_timewait_def on_timer_usertime_def Let_def
      bind_eq_Some_conv split: if_splits intro!: evolves_intros elim!: evolves_on_timer_re_tx)

end
