(* ===== verification/Tcp_SendAck.thy ===== *)
theory Tcp_SendAck
  imports Tcp_Account
begin

text \<open>
  What \<open>Connection::send_ack\<close> does, in one lemma: the segment it builds from the state
  (\<open>ack_segment\<close>), when it is left out as a duplicate, when it carries the FIN and what it
  leaves unchanged. The operations that end in \<open>send_ack\<close> are proved from it.
\<close>

section \<open>The segment sent\<close>


definition ack_limit :: "('a, 't) Connection \<Rightarrow> nat" where
  "ack_limit c = min MAX_SEGMENT_SIZE (unat (space_available (tx_buf c)))"

abbreviation tx_stream :: "('a, 't) Connection \<Rightarrow> u8 list" where
  "tx_stream c \<equiv> contents (tx_queue (tx_buf c))"

abbreviation tx_fin_marked :: "('a, 't) Connection \<Rightarrow> bool" where
  "tx_fin_marked c \<equiv> fin (tx_queue (tx_buf c))"

definition ack_fin :: "('a, 't) Connection \<Rightarrow> bool" where
  "ack_fin c \<longleftrightarrow> length (tx_stream c) < ack_limit c \<and> tx_fin_marked c \<and>
     state_tx (connection_state c) = Open"

definition ack_segment :: "('a, 't) Connection \<Rightarrow> SegmentMeta" where
  "ack_segment c = \<lparr>seqn = tx_next (tx_buf c), ackn = ackd (rx_buf c),
     window = curr_window (rx_buf c), flags = (if ack_fin c then flags_or FIN ACK else ACK),
     data = take (ack_limit c) (tx_stream c)\<rparr>"

definition ack_duplicate :: "('a, 't) Connection \<Rightarrow> bool" where
  "ack_duplicate c \<longleftrightarrow> seq_size (ack_segment c) = 0 \<and>
     last_sent (tx_buf c) = Some (tx_next (tx_buf c), ackd (rx_buf c), curr_window (rx_buf c))"

text \<open>The state after the FIN goes out.\<close>

definition fin_state :: "ConnectionState \<Rightarrow> ConnectionState" where
  "fin_state s = (case s of
      ConnectionState.Established _ rx cc ca \<Rightarrow> ConnectionState.Established Fin rx cc ca
    | _ \<Rightarrow> ConnectionState.Established Fin Open False False)"

text \<open>
  The states in which \<open>send_ack\<close> is safe: it may not be called on a closed connection, and
  after the FIN no data may be queued.
\<close>

definition can_ack :: "('a, 't) Connection \<Rightarrow> bool" where
  "can_ack c \<longleftrightarrow> connection_state c \<noteq> ConnectionState.Closed \<and> connection_state c \<noteq> ConnectionState.Listen \<and>
     connection_state c \<noteq> Reset \<and>
     (state_tx (connection_state c) \<noteq> Open \<longrightarrow> tx_stream c = [])"

section \<open>The stages\<close>

lemma send_ack_take_spec:
  obtains c1 q where "send_ack_take E c = Some ((take (ack_limit c) (tx_stream c),
        length (tx_stream c) < ack_limit c \<and> tx_fin_marked c), c1)"
    and "evolves E c c1" and "connection_state c1 = connection_state c"
    and "tx_buf c1 = (tx_buf c)\<lparr>tx_queue := q\<rparr>"
    and "contents q = drop (ack_limit c) (tx_stream c)" and "fin q = tx_fin_marked c"
    and "rx_buf c1 = rx_buf c" and "timers c1 = timers c" and "timings c1 = timings c"
    and "exp_backoff c1 = exp_backoff c" and "congestion_window c1 = congestion_window c"
    and "dup_ack_count c1 = dup_ack_count c"
    and "sent_segments (user_data c1) = sent_segments (user_data c)"
proof (cases "ack_limit c = 0")
  case True
  then have "send_ack_take E c = Some (([], False), c)"
    by (simp add: send_ack_take_def ack_limit_def)
  with True show thesis by (intro that [of c "tx_queue (tx_buf c)"]) simp_all
next
  case False
  then obtain q where q: "queue_read_bytes (ack_limit c) (tx_queue (tx_buf c)) =
        Some ((take (ack_limit c) (tx_stream c), length (tx_stream c) < ack_limit c \<and> tx_fin_marked c), q)"
      "contents q = drop (ack_limit c) (tx_stream c)" "fin q = tx_fin_marked c"
    by (metis queue_read_bytes_Some neq0_conv)
  let ?c0 = "c\<lparr>tx_buf := (tx_buf c)\<lparr>tx_queue := q\<rparr>\<rparr>"
  let ?c1 = "if take (ack_limit c) (tx_stream c) = [] \<and> \<not> any_suspended is_Acknowledged (events ?c0)
    then trigger_event E (\<lambda>w. w = TxQueueEmpty) (Ok ()) ?c0 else ?c0"
  show thesis
  proof (rule that [of ?c1 q])
    show "send_ack_take E c = Some ((take (ack_limit c) (tx_stream c),
        length (tx_stream c) < ack_limit c \<and> tx_fin_marked c), ?c1)"
      using False unfolding send_ack_take_def ack_limit_def [symmetric] by (simp add: Let_def q(1))
    show "evolves E c ?c1" by (auto intro!: evolves_intros)
  qed (simp_all add: q)
qed

lemma send_ack_flags_spec:
  assumes "connection_state c \<noteq> ConnectionState.Closed" "connection_state c \<noteq> ConnectionState.Listen"
    "connection_state c \<noteq> Reset"
  shows "send_ack_flags E b c =
    (if b \<and> state_tx (connection_state c) = Open
     then Some (flags_or FIN ACK, enter_state E (fin_state (connection_state c)) c)
     else Some (ACK, c))"
  using assms
  by (cases "connection_state c")
    (auto simp: send_ack_flags_def state_tx_def state_rx_def state_close_called_def
      state_close_active_def fin_state_def set_state_not_closing closing_def
      debug_validate_transition_def Fin_le_iff)

lemma send_ack_emit_frame [frame_simps, simp]:
  "remote (send_ack_emit E fl bs c) = remote c"
  "connection_state (send_ack_emit E fl bs c) = connection_state c"
  "dup_ack_count (send_ack_emit E fl bs c) = dup_ack_count c"
  "congestion_window (send_ack_emit E fl bs c) = congestion_window c"
  "rx_buf (send_ack_emit E fl bs c) = rx_buf c"
  "timings (send_ack_emit E fl bs c) = timings c"
  "exp_backoff (send_ack_emit E fl bs c) = exp_backoff c"
  "options (send_ack_emit E fl bs c) = options c"
  by (simp_all add: send_ack_emit_def Let_def)

lemma on_send_queue [simp]: "tx_queue (on_send seg tx) = tx_queue tx"
  by (simp add: on_send_def Let_def)

lemma on_send_queue_update:
  "on_send seg (tx\<lparr>tx_queue := q\<rparr>) = (on_send seg tx)\<lparr>tx_queue := q\<rparr>"
  by (simp add: on_send_def Let_def)

lemma seg_len_ack_segment:
  "seg_len (ack_segment c) = length (take (ack_limit c) (tx_stream c)) + of_bool (ack_fin c)"
  by (simp add: seg_len_def ack_segment_def flag_simps)

lemma seg_len_ack_segment_le: "seg_len (ack_segment c) \<le> MAX_SEGMENT_SIZE + 1"
  by (auto simp: seg_len_ack_segment ack_limit_def min_def)

lemma seg_len_ack_segment_0:
  "seg_len (ack_segment c) = 0 \<longleftrightarrow> take (ack_limit c) (tx_stream c) = [] \<and> \<not> ack_fin c"
  unfolding seg_len_ack_segment by (simp del: length_take take_eq_Nil)

lemma not_duplicate: "seg_len (ack_segment c) \<noteq> 0 \<Longrightarrow> \<not> ack_duplicate c"
  using seg_len_ack_segment_le [of c] seq_size_eq_0 [of "ack_segment c"]
  by (simp add: ack_duplicate_def MAX_SEGMENT_SIZE_def)

lemma send_ack_spec:
  assumes "can_ack c"
  obtains c' q where "send_ack E c = Some c'" and "evolves E c c'"
    and "connection_state c' = (if ack_fin c then fin_state (connection_state c) else connection_state c)"
    and "rx_buf c' = rx_buf c" and "timings c' = timings c"
    and "exp_backoff c' = exp_backoff c" and "congestion_window c' = congestion_window c"
    and "dup_ack_count c' = dup_ack_count c"
    and "contents q = drop (ack_limit c) (tx_stream c)" and "fin q = tx_fin_marked c"
    and "tx_buf c' = (if ack_duplicate c then tx_buf c else on_send (ack_segment c) (tx_buf c))
           \<lparr>tx_queue := q\<rparr>"
    and "sent_segments (user_data c') = sent_segments (user_data c) @
           (if ack_duplicate c then [] else [(remote c, ack_segment c)])"
    and "timer_timewait (timers c') = timer_timewait (timers c)"
    and "timer_usertime (timers c') = timer_usertime (timers c)"
    and "\<not> ack_fin c \<and> tx_stream c = [] \<longrightarrow> timers c' = timers c"
    and "timer_re_tx (timers c) \<noteq> None \<longrightarrow> timer_re_tx (timers c') \<noteq> None"
    and "seg_len (ack_segment c) \<noteq> 0 \<longrightarrow> timer_re_tx (timers c') \<noteq> None"
proof -
  let ?s = "connection_state c"
  let ?b = "length (tx_stream c) < ack_limit c \<and> tx_fin_marked c"
  have ok: "?s \<noteq> ConnectionState.Closed" "?s \<noteq> ConnectionState.Listen" "?s \<noteq> Reset"
    using assms by (simp_all add: can_ack_def)
  obtain c1 q where T: "send_ack_take E c = Some ((take (ack_limit c) (tx_stream c), ?b), c1)"
    and ev: "evolves E c c1" and st: "connection_state c1 = ?s"
    and tx1: "tx_buf c1 = (tx_buf c)\<lparr>tx_queue := q\<rparr>"
    and F: "contents q = drop (ack_limit c) (tx_stream c)" "fin q = tx_fin_marked c"
    "rx_buf c1 = rx_buf c" "timers c1 = timers c" "timings c1 = timings c"
    "exp_backoff c1 = exp_backoff c" "congestion_window c1 = congestion_window c"
    "dup_ack_count c1 = dup_ack_count c"
    "sent_segments (user_data c1) = sent_segments (user_data c)"
    by (rule send_ack_take_spec)
  have sent: "fin_sent (debug_assertions E) ?s = Some (state_tx ?s \<noteq> Open)"
    using ok by (cases ?s) (simp_all add: state_tx_def)
  define fl where "fl = (if ack_fin c then flags_or FIN ACK else ACK)"
  define c2 where "c2 = (if ack_fin c then enter_state E (fin_state ?s) c1 else c1)"
  have flags: "send_ack_flags E ?b c1 = Some (fl, c2)"
    using send_ack_flags_spec [of c1 E ?b] ok st by (simp add: ack_fin_def fl_def c2_def)
  let ?c' = "send_ack_emit E fl (take (ack_limit c) (tx_stream c)) c2"
  have E2: "tx_buf c2 = tx_buf c1" "rx_buf c2 = rx_buf c" "timings c2 = timings c"
    "exp_backoff c2 = exp_backoff c" "congestion_window c2 = congestion_window c"
    "dup_ack_count c2 = dup_ack_count c" "timers c2 = timers c" "evolves E c c2"
    "sent_segments (user_data c2) = sent_segments (user_data c)"
    "connection_state c2 = (if ack_fin c then fin_state ?s else ?s)"
    using ev F st by (auto simp: c2_def intro!: evolves_intros)
  have rem: "remote c2 = remote c" using E2(8) by (simp add: evolves_def)
  have nx: "tx_next (tx_buf c1) = tx_next (tx_buf c)" "last_sent (tx_buf c1) = last_sent (tx_buf c)"
    by (simp_all add: tx1)
  have seg: "ack_segment c = \<lparr>seqn = tx_next (tx_buf c2), ackn = ackd (rx_buf c2),
       window = curr_window (rx_buf c2), flags = fl, data = take (ack_limit c) (tx_stream c)\<rparr>"
    by (simp add: ack_segment_def E2 nx fl_def)
  have emit: "?c' = (if ack_duplicate c then c2
      else let c3 = user_send (ack_segment c) (c2\<lparr>tx_buf := on_send (ack_segment c) (tx_buf c2)\<rparr>)
        in if ack_fin c \<or> take (ack_limit c) (tx_stream c) \<noteq> []
           then set_timer_re_tx E (rto (timings c3)) c3 else c3)"
    unfolding send_ack_emit_def seg [symmetric] Let_def
    by (simp add: ack_duplicate_def fl_def flag_simps E2 nx ack_segment_def eq_commute [of "Some _"])
  show thesis
  proof (rule that [of ?c' q])
    show "send_ack E c = Some ?c'"
      using assms sent st T flags by (auto simp: send_ack_def can_ack_def)
    show "tx_buf ?c' = (if ack_duplicate c then tx_buf c else on_send (ack_segment c) (tx_buf c))
           \<lparr>tx_queue := q\<rparr>"
      unfolding emit Let_def by (auto simp: E2 tx1 on_send_queue_update)
    show "sent_segments (user_data ?c') = sent_segments (user_data c) @
           (if ack_duplicate c then [] else [(remote c, ack_segment c)])"
      "timer_timewait (timers ?c') = timer_timewait (timers c)"
      "timer_usertime (timers ?c') = timer_usertime (timers c)"
      unfolding emit Let_def by (simp_all add: E2 history_simps rem)
    show "\<not> ack_fin c \<and> tx_stream c = [] \<longrightarrow> timers ?c' = timers c"
      "timer_re_tx (timers c) \<noteq> None \<longrightarrow> timer_re_tx (timers ?c') \<noteq> None"
      unfolding emit Let_def by (simp_all add: E2)
    show "seg_len (ack_segment c) \<noteq> 0 \<longrightarrow> timer_re_tx (timers ?c') \<noteq> None"
      unfolding emit Let_def using seg_len_ack_segment_0 [of c] not_duplicate [of c]
      by (auto simp: E2)
    show "evolves E c ?c'" by (intro evolves_intros E2)
  qed (simp_all add: E2 F)
qed

text \<open>
  What is in flight together with the next segment fits the peer's window, as long as what is
  in flight does.
\<close>

lemma ack_segment_in_window:
  assumes "unat (tx_next (tx_buf c) - unack (tx_buf c)) \<le> unat (tx_window (tx_buf c))"
  shows "unat (tx_next (tx_buf c) - unack (tx_buf c)) + seg_len (ack_segment c) \<le> unat (tx_window (tx_buf c))"
proof -
  have "unat (tx_window (tx_buf c)) < 2 ^ 16"
    using unsigned_less [of "tx_window (tx_buf c)", where ?'a = nat] by simp
  then have "unat (space_available (tx_buf c))
      = unat (tx_window (tx_buf c)) - unat (tx_next (tx_buf c) - unack (tx_buf c))"
    using space_available_unat [of "tx_buf c"] assms by (simp add: Let_def)
  moreover have "seg_len (ack_segment c) \<le> unat (space_available (tx_buf c))"
    by (auto simp: seg_len_ack_segment ack_fin_def ack_limit_def min_def)
  ultimately show ?thesis using assms by linarith
qed

section \<open>Property\<close>

text \<open>
  C12: \<open>send_ack\<close> does not panic where it may be called, and sends exactly one segment or
  none. The segment carries the next bytes of the transmit queue, at most
  \<open>MAX_SEGMENT_SIZE\<close> and at most \<open>space_available\<close> of them; those bytes leave the
  queue, the rest stays in order. While the peer's window covers what is in flight, it also
  covers it together with this segment, its FIN included. (Once the peer has shrunk its window
  below what is in flight, \<open>space_available\<close> wraps and limits nothing: see
  \<open>space_available_wraps_when_window_shrinks\<close>.) The segment acknowledges everything
  received so far. It carries the FIN exactly when the queue is marked, drains below the limit
  and the transmit channel was still open, and then the channel moves to \<open>Fin\<close>. It is left
  out exactly when it would take no sequence space and repeat the last segment sent.
\<close>

theorem send_ack_sends_one_segment:
  assumes "can_ack c"
  shows "\<exists>c'. send_ack E c = Some c' \<and>
    sent_segments (user_data c') = sent_segments (user_data c) @
      (if ack_duplicate c then [] else [(remote c, ack_segment c)]) \<and>
    tx_stream c = data (ack_segment c) @ tx_stream c' \<and>
    length (data (ack_segment c)) \<le> MAX_SEGMENT_SIZE \<and>
    length (data (ack_segment c)) \<le> unat (space_available (tx_buf c)) \<and>
    (unat (tx_next (tx_buf c) - unack (tx_buf c)) \<le> unat (tx_window (tx_buf c)) \<longrightarrow>
       unat (tx_next (tx_buf c) - unack (tx_buf c)) + seg_len (ack_segment c) \<le> unat (tx_window (tx_buf c))) \<and>
    ackn (ack_segment c) = ackd (rx_buf c) \<and> rx_buf c' = rx_buf c \<and>
    (flags_contains (flags (ack_segment c)) FIN \<longleftrightarrow> length (tx_stream c) < ack_limit c \<and>
       tx_fin_marked c \<and> state_tx (connection_state c) = Open) \<and>
    (if flags_contains (flags (ack_segment c)) FIN then state_tx (connection_state c') = Fin
     else connection_state c' = connection_state c)"
proof -
  obtain c' q where S: "send_ack E c = Some c'"
      "connection_state c' = (if ack_fin c then fin_state (connection_state c) else connection_state c)"
      "rx_buf c' = rx_buf c" "contents q = drop (ack_limit c) (tx_stream c)"
      "tx_buf c' = (if ack_duplicate c then tx_buf c else on_send (ack_segment c) (tx_buf c))
           \<lparr>tx_queue := q\<rparr>"
      "sent_segments (user_data c') = sent_segments (user_data c) @
           (if ack_duplicate c then [] else [(remote c, ack_segment c)])"
    by (rule send_ack_spec [OF assms])
  have fin: "flags_contains (flags (ack_segment c)) FIN = ack_fin c"
    by (simp add: ack_segment_def flag_simps)
  have "state_tx (fin_state s) = Fin" for s
    by (cases s) (simp_all add: fin_state_def state_tx_def)
  moreover have "data (ack_segment c) = take (ack_limit c) (tx_stream c)"
      "ackn (ack_segment c) = ackd (rx_buf c)"
    by (simp_all add: ack_segment_def)
  moreover have "ack_limit c \<le> MAX_SEGMENT_SIZE" "ack_limit c \<le> unat (space_available (tx_buf c))"
    by (simp_all add: ack_limit_def)
  ultimately show ?thesis
    using S fin ack_segment_in_window [of c] by (intro exI [of _ c']) (auto simp: ack_fin_def min_def)
qed

definition demo_open :: "u8 list \<Rightarrow> (nat, nat) Connection" where
  "demo_open bytes = (Connection_new 9 [])\<lparr>connection_state := FULLY_OPEN,
     tx_buf := TxBuffer_default\<lparr>tx_queue := \<lparr>buffer = [bytes], fin = True\<rparr>, tx_window := 100\<rparr>\<rparr>"

theorem send_ack_sends_one_segment_witness:
  "\<exists>c'. send_ack (demo_env True) (demo_open [1, 2, 3]) = Some c' \<and>
     map (\<lambda>(a, seg). (a, data seg)) (sent_segments (user_data c')) = [(9, [1, 2, 3])] \<and>
     seg_len (ack_segment (demo_open [1, 2, 3])) \<le> 100"
proof -
  have can: "can_ack (demo_open [1, 2, 3])"
    by (simp add: demo_open_def can_ack_def Connection_new_def FULLY_OPEN_def state_tx_def)
  have "space_available (tx_buf (demo_open [1, 2, 3])) = 100"
    by (simp add: demo_open_def space_available_def TxBuffer_default_def wrapping_add_def
        raw_def SeqN_ZERO_def)
  then have "data (ack_segment (demo_open [1, 2, 3])) = [1, 2, 3]"
    "\<not> ack_duplicate (demo_open [1, 2, 3])" "remote (demo_open [1, 2, 3]) = 9"
    "user_data (demo_open [1, 2, 3]) = []"
    by (simp_all add: ack_segment_def ack_limit_def ack_duplicate_def demo_open_def
        Connection_new_def TxBuffer_default_def MAX_SEGMENT_SIZE_def contents_def seq_size_of_nat)
  moreover have "unat (tx_next (tx_buf (demo_open [1, 2, 3])) - unack (tx_buf (demo_open [1, 2, 3]))) = 0"
    "unat (tx_window (tx_buf (demo_open [1, 2, 3]))) = 100"
    by (simp_all add: demo_open_def TxBuffer_default_def)
  ultimately show ?thesis using send_ack_sends_one_segment [OF can, of "demo_env True"] by auto
qed

end
