(* ===== verification/Tcp_Listen.thy ===== *)
theory Tcp_Listen
  imports Tcp_Receive
begin

text \<open>
  \<open>src/listen.rs\<close>: the listening socket, with its backlog of SYN segments and its
  suspended accept calls.
\<close>

section \<open>Model\<close>

record ('a, 't) ListenSocket =
  listen_queue :: "('a \<times> SegmentMeta) list"
  backlog :: nat
  listen_open :: bool
  listen_events :: "unit Events"
  listen_options :: SocketOptions
  listen_user_data :: "('a, 't) history"

definition call_listen :: "nat \<Rightarrow> ('a, 't) history \<Rightarrow> ('a, 't) ListenSocket" where
  "call_listen b h = \<lparr>listen_queue = [], backlog = max b 1, listen_open = True,
     listen_events = Events_new, listen_options = SocketOptions_default, listen_user_data = h\<rparr>"

definition listen_options_mut ::
  "(SocketOptions \<Rightarrow> SocketOptions) \<Rightarrow> ('a, 't) ListenSocket \<Rightarrow> ('a, 't) ListenSocket" where
  "listen_options_mut change self = self\<lparr>listen_options := change (listen_options self)\<rparr>"

definition listen_send ::
  "'a \<Rightarrow> SegmentMeta \<Rightarrow> ('a, 't) ListenSocket \<Rightarrow> ('a, 't) ListenSocket" where
  "listen_send addr seg self =
     self\<lparr>listen_user_data := listen_user_data self @ [Send addr seg]\<rparr>"

definition rst_reply :: "SegmentMeta \<Rightarrow> SegmentMeta" where
  "rst_reply seg = \<lparr>seqn = ackn seg, ackn = SeqN_ZERO, window = 0, flags = RST, data = []\<rparr>"

text \<open>The reply to a SYN that finds the backlog full.\<close>

definition refuse_reply :: "SegmentMeta \<Rightarrow> SegmentMeta" where
  "refuse_reply seg = \<lparr>seqn = wrapping_add (ackn seg) 1, ackn = SeqN_ZERO, window = 0,
     flags = flags_or ACK RST, data = []\<rparr>"

definition listen_close ::
  "('a, 't) env \<Rightarrow> ('a, 't) ListenSocket \<Rightarrow> ('a, 't) ListenSocket" where
  "listen_close E self =
     (let self = self\<lparr>listen_open := False\<rparr>;
          (cookies, ev) = drain_filter (listen_order E) (\<lambda>_. True) (listen_events self);
          self = self\<lparr>listen_events := ev, listen_user_data := listen_user_data self @
            map (\<lambda>cookie. Event cookie (Err ListenClosed)) cookies\<rparr>
      in self\<lparr>listen_queue := [], listen_user_data := listen_user_data self @
            map (\<lambda>(addr, seg). Send addr (rst_reply seg)) (listen_queue self)\<rparr>)"

text \<open>\<open>make_user_data\<close> is the caller's function; it gives the new connection's user data.\<close>

definition listen_accept ::
  "('a, 't) env \<Rightarrow> (('a, 't) ListenSocket \<Rightarrow> ('a, 't) history) \<Rightarrow> ('a, 't) ListenSocket
     \<Rightarrow> ((Error + ('a \<times> ('a, 't) Connection)) \<times> ('a, 't) ListenSocket) option" where
  "listen_accept E make_user_data self =
     (if \<not> listen_open self then Some (Err ConnectionClosing, self)
      else case listen_queue self of
        (addr, seg) # rest \<Rightarrow> do {
          let self = self\<lparr>listen_queue := rest\<rparr>;
          let h = make_user_data self;
          let socket = Connection_new addr h;
          let socket = socket\<lparr>options := listen_options self\<rparr>;
          socket \<leftarrow> set_state E Listen socket;
          socket \<leftarrow> on_segment E seg socket;
          Some (Ok (addr, socket), self)
        }
      | [] \<Rightarrow> do {
          (r, ev) \<leftarrow> return_retry_after (debug_assertions E) () (listen_events self);
          Some (r, self\<lparr>listen_events := ev\<rparr>)
        })"

text \<open>Waking one suspended accept call, whichever the table's iteration finds first.\<close>

definition wake_one :: "('a, 't) env \<Rightarrow> ('a, 't) ListenSocket \<Rightarrow> ('a, 't) ListenSocket" where
  "wake_one E self =
     (case listen_order E (suspended (listen_events self)) of
        [] \<Rightarrow> self
      | (_, cookie) # _ \<Rightarrow>
          self\<lparr>listen_events := (listen_events self)\<lparr>suspended :=
                 removeAll ((), cookie) (suspended (listen_events self))\<rparr>,
               listen_user_data := listen_user_data self @ [Event cookie (Ok ())]\<rparr>)"

definition listen_on_segment ::
  "('a, 't) env \<Rightarrow> 'a \<Rightarrow> SegmentMeta \<Rightarrow> ('a, 't) ListenSocket \<Rightarrow> ('a, 't) ListenSocket" where
  "listen_on_segment E addr seg self =
     (if flags_contains (flags seg) RST then self
      else if flags_contains (flags seg) ACK \<or> \<not> listen_open self
      then listen_send addr (rst_reply seg) self
      else if \<not> flags_contains (flags seg) SYN then self
      else if backlog self \<le> length (listen_queue self)
      then listen_send addr (refuse_reply seg) self
      else wake_one E (self\<lparr>listen_queue := listen_queue self @ [(addr, seg)]\<rparr>))"

end
