(* ===== verification/Tcp_Socket.thy ===== *)
theory Tcp_Socket
  imports Tcp_Calls Tcp_Timer Tcp_Listen
begin

text \<open>
  \<open>src/lib.rs\<close>: \<open>Socket\<close>, which is closed, listening or a connection, and passes each
  call on to what it is. \<open>SwapTemp\<close> stands only while a call replaces the inner value;
  reaching it elsewhere is the code's \<open>unreachable!()\<close>.
\<close>

section \<open>Model\<close>

record ('a, 't) SocketCommon =
  common_user_data :: "('a, 't) history"
  common_options :: SocketOptions

datatype ('a, 't) SocketInner =
    Closed "('a, 't) SocketCommon"
  | Connection "('a, 't) Connection"
  | Listen "('a, 't) ListenSocket"
  | SwapTemp

type_synonym ('a, 't) Socket = "('a, 't) SocketInner"

definition extract_common :: "('a, 't) SocketInner \<Rightarrow> ('a, 't) SocketCommon option" where
  "extract_common self =
     (case self of
        SwapTemp \<Rightarrow> None
      | SocketInner.Closed common \<Rightarrow> Some common
      | SocketInner.Listen s \<Rightarrow>
          Some \<lparr>common_user_data = listen_user_data s, common_options = listen_options s\<rparr>
      | SocketInner.Connection s \<Rightarrow>
          Some \<lparr>common_user_data = user_data s, common_options = options s\<rparr>)"

definition Socket_new :: "('a, 't) history \<Rightarrow> ('a, 't) Socket" where
  "Socket_new h =
     SocketInner.Closed \<lparr>common_user_data = h, common_options = SocketOptions_default\<rparr>"

definition socket_state :: "('a, 't) Socket \<Rightarrow> ConnectionState option" where
  "socket_state self =
     (case self of
        SwapTemp \<Rightarrow> None
      | SocketInner.Closed _ \<Rightarrow> Some ConnectionState.Closed
      | SocketInner.Listen _ \<Rightarrow> Some ConnectionState.Listen
      | SocketInner.Connection s \<Rightarrow> Some (connection_state s))"

definition socket_options :: "('a, 't) Socket \<Rightarrow> SocketOptions option" where
  "socket_options self =
     (case self of
        SwapTemp \<Rightarrow> None
      | SocketInner.Closed s \<Rightarrow> Some (common_options s)
      | SocketInner.Listen s \<Rightarrow> Some (listen_options s)
      | SocketInner.Connection s \<Rightarrow> Some (options s))"

definition socket_options_mut ::
  "(SocketOptions \<Rightarrow> SocketOptions) \<Rightarrow> ('a, 't) Socket \<Rightarrow> ('a, 't) Socket option" where
  "socket_options_mut change self =
     (case self of
        SwapTemp \<Rightarrow> None
      | SocketInner.Closed s \<Rightarrow>
          Some (SocketInner.Closed (s\<lparr>common_options := change (common_options s)\<rparr>))
      | SocketInner.Listen s \<Rightarrow> Some (SocketInner.Listen (listen_options_mut change s))
      | SocketInner.Connection s \<Rightarrow> Some (SocketInner.Connection (options_mut change s)))"

definition socket_user_data :: "('a, 't) Socket \<Rightarrow> ('a, 't) history option" where
  "socket_user_data self =
     (case self of
        SwapTemp \<Rightarrow> None
      | SocketInner.Closed s \<Rightarrow> Some (common_user_data s)
      | SocketInner.Listen s \<Rightarrow> Some (listen_user_data s)
      | SocketInner.Connection s \<Rightarrow> Some (user_data s))"

definition socket_connect ::
  "('a, 't) env \<Rightarrow> 'a \<Rightarrow> ('a, 't) Socket \<Rightarrow> ((Error + unit) \<times> ('a, 't) Socket) option" where
  "socket_connect E rem self = do {
     st \<leftarrow> socket_state self;
     if st \<noteq> ConnectionState.Closed then Some (Err InvalidStateTransition, self)
     else do {
       common \<leftarrow> extract_common self;
       let c = Connection_new rem (common_user_data common);
       let c = c\<lparr>options := common_options common\<rparr>;
       (result, c) \<leftarrow> call_connect E c;
       Some (result, SocketInner.Connection c)
     }
   }"

definition socket_listen ::
  "nat \<Rightarrow> ('a, 't) Socket \<Rightarrow> ((Error + unit) \<times> ('a, 't) Socket) option" where
  "socket_listen b self = do {
     st \<leftarrow> socket_state self;
     if st \<noteq> ConnectionState.Closed then Some (Err InvalidStateTransition, self)
     else do {
       common \<leftarrow> extract_common self;
       Some (Ok (), SocketInner.Listen (call_listen b (common_user_data common)))
     }
   }"

definition socket_accept ::
  "('a, 't) env \<Rightarrow> (('a, 't) ListenSocket \<Rightarrow> ('a, 't) history) \<Rightarrow> ('a, 't) Socket
     \<Rightarrow> ((Error + ('a \<times> ('a, 't) Connection)) \<times> ('a, 't) Socket) option" where
  "socket_accept E make_user_data self =
     (case self of
        SwapTemp \<Rightarrow> None
      | SocketInner.Closed _ \<Rightarrow> Some (Err Error.Closed, self)
      | SocketInner.Connection _ \<Rightarrow> Some (Err InvalidStateTransition, self)
      | SocketInner.Listen s \<Rightarrow> do {
          (r, s) \<leftarrow> listen_accept E make_user_data s;
          Some (r, SocketInner.Listen s)
        })"

definition socket_close ::
  "('a, 't) env \<Rightarrow> ('a, 't) Socket \<Rightarrow> ((Error + unit) \<times> ('a, 't) Socket) option" where
  "socket_close E self =
     (case self of
        SwapTemp \<Rightarrow> None
      | SocketInner.Closed _ \<Rightarrow> Some (Err Error.Closed, self)
      | SocketInner.Connection s \<Rightarrow> do {
          (r, s) \<leftarrow> call_close E s;
          Some (r, SocketInner.Connection s)
        }
      | SocketInner.Listen s \<Rightarrow> Some (Ok (), SocketInner.Listen (listen_close E s)))"

definition socket_abort ::
  "('a, 't) env \<Rightarrow> ('a, 't) Socket \<Rightarrow> ((Error + unit) \<times> ('a, 't) Socket) option" where
  "socket_abort E self =
     (case self of
        SwapTemp \<Rightarrow> None
      | SocketInner.Closed _ \<Rightarrow> Some (Err Error.Closed, self)
      | SocketInner.Connection s \<Rightarrow>
          (let (r, s) = call_abort E s in Some (r, SocketInner.Connection s))
      | SocketInner.Listen s \<Rightarrow> Some (Ok (), SocketInner.Listen (listen_close E s)))"

definition socket_shutdown ::
  "('a, 't) env \<Rightarrow> ('a, 't) Socket \<Rightarrow> ((Error + unit) \<times> ('a, 't) Socket) option" where
  "socket_shutdown E self =
     (case self of
        SwapTemp \<Rightarrow> None
      | SocketInner.Closed _ \<Rightarrow> Some (Err Error.Closed, self)
      | SocketInner.Listen _ \<Rightarrow> Some (Err Listening, self)
      | SocketInner.Connection s \<Rightarrow> do {
          (r, s) \<leftarrow> call_shutdown E s;
          Some (r, SocketInner.Connection s)
        })"

definition socket_send ::
  "('a, 't) env \<Rightarrow> u8 list \<Rightarrow> ('a, 't) Socket \<Rightarrow> ((Error + unit) \<times> ('a, 't) Socket) option" where
  "socket_send E bytes self =
     (case self of
        SwapTemp \<Rightarrow> None
      | SocketInner.Closed _ \<Rightarrow> Some (Err Error.Closed, self)
      | SocketInner.Listen _ \<Rightarrow> Some (Err Listening, self)
      | SocketInner.Connection s \<Rightarrow> do {
          (r, s) \<leftarrow> call_send E bytes s;
          Some (r, SocketInner.Connection s)
        })"

definition socket_recv ::
  "('a, 't) env \<Rightarrow> u8 list \<Rightarrow> ('a, 't) Socket
     \<Rightarrow> ((Error + nat) \<times> u8 list \<times> ('a, 't) Socket) option" where
  "socket_recv E buf self =
     (case self of
        SwapTemp \<Rightarrow> None
      | SocketInner.Closed _ \<Rightarrow> Some (Err Error.Closed, buf, self)
      | SocketInner.Listen _ \<Rightarrow> Some (Err Listening, buf, self)
      | SocketInner.Connection s \<Rightarrow> do {
          (r, buf, s) \<leftarrow> call_recv E buf s;
          Some (r, buf, SocketInner.Connection s)
        })"

definition socket_recv_available :: "('a, 't) Socket \<Rightarrow> (Error + nat) option" where
  "socket_recv_available self =
     (case self of
        SwapTemp \<Rightarrow> None
      | SocketInner.Closed _ \<Rightarrow> Some (Err Error.Closed)
      | SocketInner.Listen _ \<Rightarrow> Some (Err Listening)
      | SocketInner.Connection s \<Rightarrow> Some (Ok (recv_available s)))"

definition socket_on_segment ::
  "('a, 't) env \<Rightarrow> 'a \<Rightarrow> SegmentMeta \<Rightarrow> ('a, 't) Socket \<Rightarrow> ('a, 't) Socket option" where
  "socket_on_segment E src seg self =
     (case self of
        SwapTemp \<Rightarrow> None
      | SocketInner.Closed s \<Rightarrow> do {
          r \<leftarrow> response_to_closed seg;
          Some (SocketInner.Closed (case r of
              Some resp \<Rightarrow> s\<lparr>common_user_data := common_user_data s @ [Send src resp]\<rparr>
            | None \<Rightarrow> s))
        }
      | SocketInner.Listen s \<Rightarrow> Some (SocketInner.Listen (listen_on_segment E src seg s))
      | SocketInner.Connection s \<Rightarrow> do {
          s \<leftarrow> on_segment E seg s;
          Some (SocketInner.Connection s)
        })"

definition socket_on_time_tick ::
  "('a, 't::linorder) env \<Rightarrow> 't \<Rightarrow> ('a, 't) Socket \<Rightarrow> ('a, 't) Socket option" where
  "socket_on_time_tick E time self =
     (case self of
        SwapTemp \<Rightarrow> None
      | SocketInner.Closed _ \<Rightarrow> Some self
      | SocketInner.Listen _ \<Rightarrow> Some self
      | SocketInner.Connection s \<Rightarrow> do {
          s \<leftarrow> on_time_tick E time s;
          Some (SocketInner.Connection s)
        })"

definition socket_of_connection :: "('a, 't) Connection \<Rightarrow> ('a, 't) Socket" where
  "socket_of_connection s = SocketInner.Connection s"

definition socket_of_listen :: "('a, 't) ListenSocket \<Rightarrow> ('a, 't) Socket" where
  "socket_of_listen s = SocketInner.Listen s"

end
