(* ===== verification/Tcp_Api.thy ===== *)
theory Tcp_Api
  imports Tcp_SendAck Tcp_Socket
begin

text \<open>
  The connection and the listening socket as machines driven by their environment: the
  user's calls, the segments of the network and the clock. The contract both keep is the
  accounting of cookies (\<open>cookie_accounting\<close>): every cookie a call returns is new, and is
  from then on either waiting or has been delivered, exactly once.
\<close>

section \<open>Cookies in results\<close>

text \<open>The cookie a result hands to the caller, if any.\<close>

definition issued :: "Error + 'r \<Rightarrow> Cookie list" where
  "issued r = (case r of Err (RetryAfter k) \<Rightarrow> [k] | Err (ContinueAfter k) \<Rightarrow> [k] | _ \<Rightarrow> [])"

lemma issued_simps [simp]:
  "issued (Ok x) = []" "issued (Err (RetryAfter k)) = [k]" "issued (Err (ContinueAfter k)) = [k]"
  "issued (Err InvalidStateTransition) = []" "issued (Err NotConnected) = []"
  "issued (Err ConnectionReset) = []" "issued (Err ConnectionClosing) = []"
  "issued (Err Error.Closed) = []" "issued (Err Listening) = []"
  by (simp_all add: issued_def)

definition fresh_below :: "Cookie multiset \<Rightarrow> Cookie \<Rightarrow> bool" where
  "fresh_below M n \<longleftrightarrow> (\<forall>k \<in># M. k < n) \<and> (\<forall>k. count M k \<le> 1)"

lemma fresh_below_empty [simp]: "fresh_below {#} n"
  by (simp add: fresh_below_def)

lemma fresh_below_add:
  assumes "fresh_below M n" and "unat n + 1 < 2 ^ 64"
  shows "fresh_below (add_mset n M) (n + 1)"
proof -
  have lt: "k < n + 1" if "k \<le> n" for k :: Cookie
    using that unat_cookie_succ [OF assms(2)] by (simp add: word_less_nat_alt word_le_nat_alt)
  have "count M n = 0" using assms(1) by (auto simp: fresh_below_def count_eq_zero_iff)
  then show ?thesis using assms(1) lt by (force simp: fresh_below_def)
qed

lemma fresh_below_distinct: "fresh_below (mset ks) n \<Longrightarrow> distinct ks"
  by (metis distinct_count_atmost_1 fresh_below_def le_antisym less_one linorder_not_less
      not_in_iff set_mset_mset)

locale cookie_accounting =
  fixes valid :: "'e \<Rightarrow> bool"
    and checked :: "'e \<Rightarrow> bool"
    and oper :: "'e \<Rightarrow> 'op \<Rightarrow> 'c \<Rightarrow> ((Error + 'r) \<times> 'c) option"
    and cookies :: "'c \<Rightarrow> Cookie multiset"
    and next_id :: "'c \<Rightarrow> Cookie"
  assumes accounts: "valid e \<Longrightarrow> oper e x c = Some (r, c') \<Longrightarrow>
      fresh_below (cookies c) (next_id c) \<Longrightarrow> cookies c' = cookies c + mset (issued r)"
    and issues: "oper e x c = Some (r, c') \<Longrightarrow>
      issued r = [] \<and> next_id c' = next_id c \<or>
      issued r = [next_id c] \<and> next_id c' = next_id c + 1 \<and>
        (checked e \<longrightarrow> unat (next_id c) + 1 < 2 ^ 64)"
begin

fun run :: "'e \<Rightarrow> 'op list \<Rightarrow> 'c \<Rightarrow> ((Error + 'r) list \<times> 'c) option" where
  "run e [] c = Some ([], c)"
| "run e (x # xs) c = do {
     (r, c) \<leftarrow> oper e x c;
     (rs, c) \<leftarrow> run e xs c;
     Some (r # rs, c)
   }"

lemma step_accounts:
  assumes "valid e" and "oper e x c = Some (r, c')" and "fresh_below (cookies c) (next_id c)"
    and "checked e \<or> unat (next_id c) + 1 < 2 ^ 64"
  shows "cookies c' = cookies c + mset (issued r)" and "fresh_below (cookies c') (next_id c')"
    and "unat (next_id c') \<le> unat (next_id c) + 1"
proof -
  show a: "cookies c' = cookies c + mset (issued r)"
    using assms(1-3) by (rule accounts)
  consider (none) "issued r = []" "next_id c' = next_id c"
    | (one) "issued r = [next_id c]" "next_id c' = next_id c + 1" "unat (next_id c) + 1 < 2 ^ 64"
    using issues [OF assms(2)] assms(4) by blast
  then have "fresh_below (cookies c') (next_id c') \<and> unat (next_id c') \<le> unat (next_id c) + 1"
  proof cases
    case one
    from fresh_below_add [OF assms(3) one(3)] unat_cookie_succ [OF one(3)] show ?thesis
      by (simp add: a one)
  qed (use assms(3) a in simp_all)
  then show "fresh_below (cookies c') (next_id c')" "unat (next_id c') \<le> unat (next_id c) + 1"
    by simp_all
qed

lemma run_accounts:
  assumes "valid e" and "run e xs c = Some (rs, c')" and "fresh_below (cookies c) (next_id c)"
    and "checked e \<or> unat (next_id c) + length xs < 2 ^ 64"
  shows "cookies c' = cookies c + mset (concat (map issued rs)) \<and>
         fresh_below (cookies c') (next_id c')"
  using assms(2-)
proof (induction xs arbitrary: c rs)
  case Nil
  then show ?case by simp
next
  case (Cons x xs)
  from Cons.prems(1) obtain r c1 rs' where o: "oper e x c = Some (r, c1)"
    and r: "run e xs c1 = Some (rs', c')" and rs: "rs = r # rs'"
    by (auto simp: bind_eq_Some_conv)
  have room: "checked e \<or> unat (next_id c) + 1 < 2 ^ 64" using Cons.prems(3) by auto
  note S = step_accounts [OF assms(1) o Cons.prems(2) room]
  have "checked e \<or> unat (next_id c1) + length xs < 2 ^ 64"
    using Cons.prems(3) S(3) by auto
  from Cons.IH [OF r S(2) this] show ?case by (auto simp: rs S(1) add.assoc)
qed

lemma run_invariant:
  assumes "run e xs c = Some (rs, c')" and "P c"
    and "\<And>x c r c'. x \<in> set xs \<Longrightarrow> oper e x c = Some (r, c') \<Longrightarrow> P c \<Longrightarrow> P c'"
  shows "P c'"
  using assms
proof (induction xs arbitrary: c rs)
  case (Cons x xs)
  then obtain r c1 rs' where "oper e x c = Some (r, c1)" "run e xs c1 = Some (rs', c')"
    by (auto simp: bind_eq_Some_conv)
  with Cons show ?case by (metis list.set_intros(1) list.set_intros(2))
qed simp

end

section \<open>The connection as a machine\<close>

datatype 't conn_op =
    DoConnect
  | DoSend "u8 list"
  | DoRecv "u8 list"
  | DoShutdown
  | DoClose
  | DoAbort
  | Segment SegmentMeta
  | Tick 't

definition no_value :: "Error + unit \<Rightarrow> Error + nat" where
  "no_value r = (case r of Err e \<Rightarrow> Err e | Ok _ \<Rightarrow> Ok 0)"

fun conn_step ::
  "('a, 't::linorder) env \<Rightarrow> 't conn_op \<Rightarrow> ('a, 't) Connection
     \<Rightarrow> ((Error + nat) \<times> ('a, 't) Connection) option" where
  "conn_step E DoConnect c = map_option (apfst no_value) (call_connect E c)"
| "conn_step E (DoSend bytes) c = map_option (apfst no_value) (call_send E bytes c)"
| "conn_step E (DoRecv buf) c = map_option (\<lambda>(r, _, c). (r, c)) (call_recv E buf c)"
| "conn_step E DoShutdown c = map_option (apfst no_value) (call_shutdown E c)"
| "conn_step E DoClose c = map_option (apfst no_value) (call_close E c)"
| "conn_step E DoAbort c = Some (apfst no_value (call_abort E c))"
| "conn_step E (Segment seg) c = map_option (Pair (Ok 0)) (on_segment E seg c)"
| "conn_step E (Tick time) c = map_option (Pair (Ok 0)) (on_time_tick E time c)"

lemma issued_no_value [simp]: "issued (no_value r) = issued r"
  by (cases r) (simp_all add: no_value_def issued_def)

text \<open>An operation that evolves the connection and then may suspend the call.\<close>

definition accounted ::
  "('a, 't) env \<Rightarrow> ('a, 't) Connection \<Rightarrow> Error + 'r \<Rightarrow> ('a, 't) Connection \<Rightarrow> bool" where
  "accounted E c r c' \<longleftrightarrow>
     issued r = [] \<and> evolves E c c' \<or>
     (\<exists>c1 w. evolves E c c1 \<and> issued r = [next_cookie (events c1)] \<and>
       c' = c1\<lparr>events := (events c1)\<lparr>next_cookie := next_cookie (events c1) + 1,
         suspended := hash_insert (w, next_cookie (events c1)) (suspended (events c1))\<rparr>\<rparr> \<and>
       (debug_assertions E \<longrightarrow> unat (next_cookie (events c1)) + 1 < 2 ^ 64))"

lemma accounted_plain: "issued r = [] \<Longrightarrow> accounted E c r c' \<longleftrightarrow> evolves E c c'"
  by (simp add: accounted_def)

lemma accounted_plain_simps [simp]:
  "accounted E c (Ok x) c' \<longleftrightarrow> evolves E c c'"
  "accounted E c (Err InvalidStateTransition) c' \<longleftrightarrow> evolves E c c'"
  "accounted E c (Err NotConnected) c' \<longleftrightarrow> evolves E c c'"
  "accounted E c (Err ConnectionReset) c' \<longleftrightarrow> evolves E c c'"
  "accounted E c (Err ConnectionClosing) c' \<longleftrightarrow> evolves E c c'"
  by (simp_all add: accounted_plain)

lemma accounted_suspendI:
  assumes "evolves E c c1" and "issued r = [next_cookie (events c1)]"
    and "c' = c1\<lparr>events := (events c1)\<lparr>next_cookie := next_cookie (events c1) + 1,
         suspended := hash_insert (w, next_cookie (events c1)) (suspended (events c1))\<rparr>\<rparr>"
    and "debug_assertions E \<longrightarrow> unat (next_cookie (events c1)) + 1 < 2 ^ 64"
  shows "accounted E c r c'"
  using assms unfolding accounted_def by blast

lemma accounted_suspend:
  assumes "evolves E c c1"
  shows "retry_after E w c1 = Some (r, c') \<Longrightarrow> accounted E c r c'"
    and "continue_after E w c1 = Some (r, c') \<Longrightarrow> accounted E c r c'"
  by (rule accounted_suspendI [OF assms];
      auto simp: retry_after_def continue_after_def return_retry_after_def
        return_continue_after_def bind_eq_Some_conv new_cookie_eq_Some Let_def)+

lemma evolves_write_tx: "write_tx bytes c = Some c' \<Longrightarrow> evolves E c0 c \<Longrightarrow> evolves E c0 c'"
  by (auto simp: write_tx_def bind_eq_Some_conv intro!: evolves_intros)

lemma evolves_mark_fin_and_send:
  "mark_fin_and_send E c = Some c' \<Longrightarrow> evolves E c0 c \<Longrightarrow> evolves E c0 c'"
  by (auto simp: mark_fin_and_send_def intro!: evolves_intros elim!: evolves_send_ack)

lemmas accounted_elims = accounted_suspend [rotated] evolves_set_state evolves_send_ack
  evolves_write_tx evolves_mark_fin_and_send

lemma accounted_call_connect: "call_connect E c = Some (r, c') \<Longrightarrow> accounted E c r c'"
proof -
  assume a: "call_connect E c = Some (r, c')"
  show ?thesis
  proof (cases "connection_state c = ConnectionState.Closed \<or> connection_state c = Reset")
    case False
    with a show ?thesis by (auto simp: call_connect_def)
  next
    case True
    with a obtain c1 where c1: "set_state E SynSent c = Some c1"
      by (auto simp: call_connect_def bind_eq_Some_conv)
    obtain v c2 where v: "user_new_seqn E c1 = (v, c2)" by fastforce
    have "evolves E c (snd (user_new_seqn E c1))"
      by (intro evolves_intros evolves_set_state [OF c1]) simp_all
    then have c2: "evolves E c c2" by (simp add: v)
    from a True show ?thesis
      by (auto simp: call_connect_def c1 v Let_def
          intro!: evolves_intros c2 elim!: accounted_suspend(2) [rotated])
  qed
qed

lemma accounted_call_send: "call_send E bytes c = Some (r, c') \<Longrightarrow> accounted E c r c'"
  by (auto simp: call_send_def Let_def bind_eq_Some_conv split: ConnectionState.splits if_splits
      elim!: accounted_elims)

lemma accounted_call_recv: "call_recv E buf c = Some (r, out, c') \<Longrightarrow> accounted E c r c'"
  by (auto simp: call_recv_def Let_def bind_eq_Some_conv
      split: ConnectionState.splits ChannelState.splits if_splits
      intro!: evolves_intros elim!: accounted_elims)

lemma accounted_call_shutdown: "call_shutdown E c = Some (r, c') \<Longrightarrow> accounted E c r c'"
  by (auto simp: call_shutdown_def Let_def bind_eq_Some_conv
      split: ConnectionState.splits ChannelState.splits if_splits
      intro!: evolves_intros elim!: accounted_elims)

lemma accounted_close_established:
  assumes "close_established E ca c = Some (r, c')" and "evolves E c0 c"
  shows "accounted E c0 r c'"
  using assms
  by (auto simp: close_established_def Let_def bind_eq_Some_conv split: if_splits
      elim!: accounted_elims)

lemma accounted_call_close: "call_close E c = Some (r, c') \<Longrightarrow> accounted E c r c'"
  by (auto simp: call_close_def Let_def bind_eq_Some_conv
      split: ConnectionState.splits if_splits
      intro!: evolves_intros elim!: accounted_elims accounted_close_established)

lemma accounted_call_abort: "call_abort E c = (r, c') \<Longrightarrow> accounted E c r c'"
  by (auto simp: call_abort_def Let_def split: ConnectionState.splits intro!: evolves_intros)

lemma accounted_no_value: "accounted E c q c' \<Longrightarrow> accounted E c (no_value q) c'"
  by (simp add: accounted_def)

lemma accounted_conn_step:
  assumes "conn_step E x c = Some (r, c')"
  shows "accounted E c r c'"
proof (cases x)
  case DoAbort
  with assms show ?thesis
    by (cases "call_abort E c") (auto intro!: accounted_no_value accounted_call_abort)
next
  case (DoRecv buf)
  with assms show ?thesis by (auto intro: accounted_call_recv)
qed (use assms in \<open>auto simp: apfst_def intro: accounted_no_value accounted_call_connect
      accounted_call_send accounted_call_shutdown accounted_call_close evolves_on_segment
      evolves_on_time_tick\<close>)

lemma conn_cookies_suspend:
  assumes "fresh_below (conn_cookies c) (next_cookie (events c))"
  shows "conn_cookies (c\<lparr>events := (events c)\<lparr>next_cookie := n, suspended :=
      hash_insert (w, next_cookie (events c)) (suspended (events c))\<rparr>\<rparr>)
    = add_mset (next_cookie (events c)) (conn_cookies c)"
proof -
  have "next_cookie (events c) \<notin># conn_cookies c"
    using assms by (auto simp: fresh_below_def)
  then have "(w, next_cookie (events c)) \<notin> set (suspended (events c))"
    by (force simp: conn_cookies_def)
  then show ?thesis by (simp add: conn_cookies_def hash_insert_def)
qed

interpretation conn: cookie_accounting "\<lambda>E. visits_all (wait_order E)" debug_assertions conn_step
  conn_cookies "\<lambda>c. next_cookie (events c)"
proof (unfold_locales, goal_cases)
  case (1 E x c r c')
  from accounted_conn_step [OF 1(2)] consider (plain) "issued r = []" "evolves E c c'"
    | (suspend) c1 w where "evolves E c c1" "issued r = [next_cookie (events c1)]"
      "c' = c1\<lparr>events := (events c1)\<lparr>next_cookie := next_cookie (events c1) + 1,
         suspended := hash_insert (w, next_cookie (events c1)) (suspended (events c1))\<rparr>\<rparr>"
    unfolding accounted_def by blast
  then show ?case
  proof cases
    case suspend
    from suspend(1) 1(1,3) have "conn_cookies c1 = conn_cookies c"
      "fresh_below (conn_cookies c1) (next_cookie (events c1))"
      by (auto simp: evolves_def)
    with suspend conn_cookies_suspend [of c1] show ?thesis by simp
  qed (use 1(1) in \<open>simp add: evolves_def\<close>)
next
  case (2 E x c r c')
  from accounted_conn_step [OF 2] show ?case
    by (auto simp: accounted_def evolves_def)
qed

end
