(* ===== verification/Tcp_Invariant.thy ===== *)
theory Tcp_Invariant
  imports Tcp_SendAck
begin

text \<open>
  The well-formedness of a connection (\<open>conn_ok\<close>): what the two buffers, the timers and
  the suspended calls are in each connection state. This theory states it and proves that
  the pieces of the segment handler and \<open>send_ack\<close> keep it.
\<close>

section \<open>The invariant\<close>

text \<open>The states without a connection: both buffers, the timers and the events are as new.\<close>

definition quiet :: "ConnectionState \<Rightarrow> bool" where
  "quiet s \<longleftrightarrow> s = ConnectionState.Closed \<or> s = Reset \<or> s = ConnectionState.Listen"

definition handshaking :: "ConnectionState \<Rightarrow> bool" where
  "handshaking s \<longleftrightarrow> s = SynSent \<or> s = SynReceived"

abbreviation window_bound :: nat where
  "window_bound \<equiv> unat INITIAL_WINDOW_SIZE"

text \<open>
  The receive side. \<open>fin_pending\<close> allows for the moment between storing a FIN and the
  state change it makes.
\<close>

definition rx_ok :: "bool \<Rightarrow> ConnectionState \<Rightarrow> RxBuffer \<Rightarrow> bool" where
  "rx_ok fin_pending s rx \<longleftrightarrow>
     rx_window rx = INITIAL_WINDOW_SIZE \<and> length (rx_stream rx) < 2 * window_bound \<and>
     (rx_done rx \<longrightarrow> rx_stream rx = [] \<and> rx_fin rx) \<and>
     (case s of
        ConnectionState.Established _ r _ _ \<Rightarrow>
          (rx_fin rx \<and> \<not> fin_pending \<longrightarrow> r \<noteq> Open) \<and> (rx_done rx \<longleftrightarrow> r = ChannelState.Closed)
      | TimeWait \<Rightarrow> rx_done rx
      | SynSent \<Rightarrow> rx_stream rx = [] \<and> \<not> rx_fin rx
      | SynReceived \<Rightarrow> rx_stream rx = [] \<and> \<not> rx_fin rx
      | _ \<Rightarrow> rx = RxBuffer_default)"

definition tx_ok :: "ConnectionState \<Rightarrow> TxBuffer \<Rightarrow> bool" where
  "tx_ok s tx \<longleftrightarrow> tx_wf tx \<and>
     (case s of
        ConnectionState.Established t _ _ _ \<Rightarrow>
          (t \<noteq> Open \<longrightarrow> contents (tx_queue tx) = [] \<and> fin (tx_queue tx)) \<and>
          (t = ChannelState.Closed \<longrightarrow> re_tx tx = [])
      | TimeWait \<Rightarrow> contents (tx_queue tx) = [] \<and> fin (tx_queue tx) \<and> re_tx tx = []
      | SynSent \<Rightarrow> \<not> fin (tx_queue tx) \<and> tx_init_seqn tx = unack tx \<and> tx_next tx = unack tx + 1
      | SynReceived \<Rightarrow> \<not> fin (tx_queue tx)
      | _ \<Rightarrow> tx = TxBuffer_default)"

definition timers_ok :: "ConnectionState \<Rightarrow> TxBuffer \<Rightarrow> 't Timers \<Rightarrow> bool" where
  "timers_ok s tx tm \<longleftrightarrow> timer_usertime tm = None \<and>
     (timer_timewait tm \<noteq> None \<longleftrightarrow> s = TimeWait) \<and>
     (re_tx tx \<noteq> [] \<longrightarrow> timer_re_tx tm \<noteq> None) \<and>
     (s = TimeWait \<or> quiet s \<longrightarrow> timer_re_tx tm = None)"

text \<open>
  The calls waiting for an acknowledgement. Before the connection is open, queued data means
  that a call waits, and no SYN-ACK can be taken for the acknowledgement it waits for.
\<close>

definition waits_ok :: "ConnectionState \<Rightarrow> TxBuffer \<Rightarrow> WaitUntil Events \<Rightarrow> bool" where
  "waits_ok s tx ev \<longleftrightarrow>
     (quiet s \<longrightarrow> \<not> any_suspended is_Acknowledged ev) \<and>
     (handshaking s \<and> contents (tx_queue tx) \<noteq> [] \<longrightarrow> any_suspended is_Acknowledged ev) \<and>
     (s = SynSent \<longrightarrow> (\<forall>q k. (Acknowledged q, k) \<in> set (suspended ev) \<longrightarrow>
        0 < unat (q - tx_next tx) \<and> unat (q - tx_next tx) < 2 ^ 31 - 1))"

definition conn_ok :: "bool \<Rightarrow> ('a, 't) Connection \<Rightarrow> bool" where
  "conn_ok fin_pending c \<longleftrightarrow> \<not> closing (connection_state c) \<and>
     rx_ok fin_pending (connection_state c) (rx_buf c) \<and> tx_ok (connection_state c) (tx_buf c) \<and>
     timers_ok (connection_state c) (tx_buf c) (timers c) \<and>
     waits_ok (connection_state c) (tx_buf c) (events c) \<and> timings c = Timings_default"

abbreviation conn_wf :: "('a, 't) Connection \<Rightarrow> bool" where
  "conn_wf c \<equiv> conn_ok False c"

text \<open>Less than 2 GiB in flight: the bound under which sequence numbers compare.\<close>

definition roomy :: "('a, 't) Connection \<Rightarrow> bool" where
  "roomy c \<longleftrightarrow> flight (re_tx (tx_buf c)) + MAX_SEGMENT_SIZE + 1 < 2 ^ 31"

section \<open>Basic facts\<close>

lemma quiet_simps [simp]:
  "quiet ConnectionState.Closed" "quiet Reset" "quiet ConnectionState.Listen"
  "\<not> quiet SynSent" "\<not> quiet SynReceived" "\<not> quiet TimeWait"
  "\<not> quiet (ConnectionState.Established t r cc ca)"
  by (simp_all add: quiet_def)

lemma handshaking_simps [simp]:
  "handshaking SynSent" "handshaking SynReceived" "\<not> handshaking ConnectionState.Closed"
  "\<not> handshaking Reset" "\<not> handshaking ConnectionState.Listen" "\<not> handshaking TimeWait"
  "\<not> handshaking (ConnectionState.Established t r cc ca)"
  by (simp_all add: handshaking_def)

lemma closing_simps [simp]:
  "\<not> closing ConnectionState.Closed" "\<not> closing Reset" "\<not> closing ConnectionState.Listen"
  "\<not> closing SynSent" "\<not> closing SynReceived" "\<not> closing TimeWait"
  "closing (ConnectionState.Established t r cc ca) \<longleftrightarrow>
     t = ChannelState.Closed \<and> r = ChannelState.Closed \<and> cc"
  by (simp_all add: closing_def)

lemma window_bound_eq: "window_bound = 4096"
  by (simp add: INITIAL_WINDOW_SIZE_def)

lemma tx_default_simps [simp]:
  "contents (tx_queue TxBuffer_default) = []" "fin (tx_queue TxBuffer_default) = False"
  "re_tx TxBuffer_default = []" "unack TxBuffer_default = 0" "tx_next TxBuffer_default = 0"
  "tx_wf TxBuffer_default"
  by (simp_all add: TxBuffer_default_def SeqN_ZERO_def tx_wf_def tx_start_def)

lemma timers_default_simps [simp]:
  "timer_re_tx Timers_default = None" "timer_timewait Timers_default = None"
  "timer_usertime Timers_default = None"
  by (simp_all add: Timers_default_def)

lemma rx_ok_quiet: "quiet s \<Longrightarrow> rx_ok b s rx \<longleftrightarrow> rx = RxBuffer_default"
  by (auto simp: rx_ok_def quiet_def window_bound_eq split: ConnectionState.split)

lemma tx_ok_quiet: "quiet s \<Longrightarrow> tx_ok s tx \<longleftrightarrow> tx = TxBuffer_default"
  by (auto simp: tx_ok_def quiet_def split: ConnectionState.split)

lemma quiet_conn_ok:
  assumes "quiet (connection_state c)"
  shows "conn_ok b c \<longleftrightarrow> rx_buf c = RxBuffer_default \<and> tx_buf c = TxBuffer_default \<and>
    timers c = Timers_default \<and> \<not> any_suspended is_Acknowledged (events c) \<and>
    timings c = Timings_default"
proof -
  have "\<not> closing (connection_state c)" "connection_state c \<noteq> TimeWait" "connection_state c \<noteq> SynSent"
    "\<not> handshaking (connection_state c)"
    using assms by (auto simp: quiet_def)
  with assms show ?thesis
    by (cases "timers c") (auto simp: conn_ok_def rx_ok_quiet tx_ok_quiet timers_ok_def waits_ok_def
        Timers_default_def)
qed

lemma clear_ok: "conn_ok b (clear E c)"
  by (simp add: quiet_conn_ok any_suspended_def clear_def [symmetric])


section \<open>State changes\<close>

lemma tx_wf_queue [simp]: "tx_wf (tx\<lparr>tx_queue := q\<rparr>) = tx_wf tx"
  by (simp add: tx_wf_def tx_start_def split: list.split)

lemma tx_wf_window [simp]: "tx_wf (tx\<lparr>tx_window := w\<rparr>) = tx_wf tx"
  by (simp add: tx_wf_def tx_start_def split: list.split)

lemma tx_ok_window [simp]:
  "\<not> quiet s \<Longrightarrow> tx_ok s (tx\<lparr>tx_window := w\<rparr>) = tx_ok s tx"
  by (auto simp: tx_ok_def split: ConnectionState.split)

lemma waits_ok_established [simp]: "waits_ok (ConnectionState.Established t r cc ca) tx ev"
  by (simp add: waits_ok_def)

lemma waits_ok_TimeWait [simp]: "waits_ok TimeWait tx ev"
  by (simp add: waits_ok_def)

lemma timers_ok_established:
  "timers_ok (ConnectionState.Established t r cc ca) tx tm \<longleftrightarrow>
     timer_usertime tm = None \<and> timer_timewait tm = None \<and>
     (re_tx tx \<noteq> [] \<longrightarrow> timer_re_tx tm \<noteq> None)"
  by (auto simp: timers_ok_def)

lemma set_state_established_ok:
  assumes "set_state E (ConnectionState.Established t r cc ca) c = Some c'"
    and "rx_ok b (ConnectionState.Established t r cc ca) (rx_buf c)"
    and "tx_ok (ConnectionState.Established t r cc ca) (tx_buf c)"
    and "timers_ok (ConnectionState.Established t r cc ca) (tx_buf c) (timers c)"
    and "timings c = Timings_default"
  shows "conn_ok b c'"
  using assms(1)
proof (rule set_state_cases)
  assume "\<not> closing (ConnectionState.Established t r cc ca)"
    and c': "c' = enter_state E (ConnectionState.Established t r cc ca) c"
  then show ?thesis using assms(2-) by (simp add: conn_ok_def c')
next
  assume s: "ConnectionState.Established t r cc ca
      = ConnectionState.Established ChannelState.Closed ChannelState.Closed True True"
    and c': "c' = set_timer_timewait E (MAX_SEGMENT_LIFETIME * 2)
            ((enter_state E TimeWait (enter_state E (ConnectionState.Established t r cc ca) c))
              \<lparr>timers := Timers_default\<rparr>)"
  then show ?thesis
    using assms(2-) by (auto simp: conn_ok_def rx_ok_def tx_ok_def timers_ok_def)
qed (simp_all add: clear_ok)

section \<open>Sending\<close>

lemma flight_bound: "roomy c \<Longrightarrow> flight (re_tx (tx_buf c)) + seg_len (ack_segment c) < 2 ^ 31"
  using seg_len_ack_segment_le [of c] by (simp add: roomy_def)

lemma ack_segment_seqn [simp]: "seqn (ack_segment c) = tx_next (tx_buf c)"
  by (simp add: ack_segment_def)

text \<open>
  What \<open>send_ack\<close> keeps of the transmit side, stated for any state it may be called in.
\<close>

lemma send_ack_keeps:
  assumes "can_ack c" and wf: "tx_wf (tx_buf c)" and room: "roomy c"
    and armed: "re_tx (tx_buf c) \<noteq> [] \<longrightarrow> timer_re_tx (timers c) \<noteq> None"
  obtains c' where "send_ack E c = Some c'" and "tx_wf (tx_buf c')"
    and "re_tx (tx_buf c') \<noteq> [] \<longrightarrow> timer_re_tx (timers c') \<noteq> None"
    and "tx_stream c' = drop (ack_limit c) (tx_stream c)" and "tx_fin_marked c' = tx_fin_marked c"
    and "re_tx (tx_buf c') = re_tx (tx_buf c) @
           (if seg_len (ack_segment c) = 0 then [] else [ack_segment c])"
    and "rx_buf c' = rx_buf c" and "timings c' = timings c"
    and "timer_timewait (timers c') = timer_timewait (timers c)"
    and "timer_usertime (timers c') = timer_usertime (timers c)"
    and "\<not> ack_fin c \<and> tx_stream c = [] \<longrightarrow> timers c' = timers c"
    and "connection_state c' = (if ack_fin c then fin_state (connection_state c) else connection_state c)"
proof -
  obtain c' q where S: "send_ack E c = Some c'"
      "connection_state c' = (if ack_fin c then fin_state (connection_state c) else connection_state c)"
      "rx_buf c' = rx_buf c" "timings c' = timings c"
      "contents q = drop (ack_limit c) (tx_stream c)" "fin q = tx_fin_marked c"
      and tx: "tx_buf c' = (if ack_duplicate c then tx_buf c else on_send (ack_segment c) (tx_buf c))
           \<lparr>tx_queue := q\<rparr>"
      and T: "timer_timewait (timers c') = timer_timewait (timers c)"
      "timer_usertime (timers c') = timer_usertime (timers c)"
      "\<not> ack_fin c \<and> tx_stream c = [] \<longrightarrow> timers c' = timers c"
      and re: "timer_re_tx (timers c) \<noteq> None \<longrightarrow> timer_re_tx (timers c') \<noteq> None"
      "seg_len (ack_segment c) \<noteq> 0 \<longrightarrow> timer_re_tx (timers c') \<noteq> None"
    by (rule send_ack_spec [OF assms(1), of E])
  note W = on_send_wf [OF wf ack_segment_seqn flight_bound [OF room]]
  have dup: "ack_duplicate c \<Longrightarrow> seg_len (ack_segment c) = 0" using not_duplicate by blast
  have r: "re_tx (tx_buf c') = re_tx (tx_buf c) @
      (if seg_len (ack_segment c) = 0 then [] else [ack_segment c])"
    using tx W(2) dup by auto
  show thesis
  proof (rule that [OF S(1)])
    show "tx_wf (tx_buf c')" using tx W(1) wf by auto
    show "re_tx (tx_buf c') \<noteq> [] \<longrightarrow> timer_re_tx (timers c') \<noteq> None"
      using r re armed by (auto split: if_splits)
  qed (use S T tx r in auto)
qed

lemma fin_state_simps [simp]:
  "fin_state (ConnectionState.Established t r cc ca) = ConnectionState.Established Fin r cc ca"
  "fin_state SynReceived = ConnectionState.Established Fin Open False False"
  by (simp_all add: fin_state_def)

lemma conn_ok_can_ack:
  assumes "conn_ok b c" and "\<not> quiet (connection_state c)" and "\<not> handshaking (connection_state c)"
  shows "can_ack c"
  using assms
  by (cases "connection_state c")
    (auto simp: conn_ok_def can_ack_def tx_ok_def state_tx_def)

lemma state_tx_simps [simp]:
  "state_tx (ConnectionState.Established t r cc ca) = t" "state_tx TimeWait = ChannelState.Closed"
  "state_tx SynReceived = Open" "state_tx SynSent = Open"
  by (simp_all add: state_tx_def)

lemma not_quiet_handshaking_cases:
  assumes "\<not> quiet s" and "\<not> handshaking s"
  obtains "s = TimeWait" | t r cc ca where "s = ConnectionState.Established t r cc ca"
  using assms by (cases s) auto

lemma send_ack_ok:
  assumes ok: "conn_ok b c" and st: "\<not> quiet (connection_state c)" "\<not> handshaking (connection_state c)"
    and room: "roomy c"
  obtains c' where "send_ack E c = Some c'" and "conn_ok b c'" and "rx_buf c' = rx_buf c"
    and "connection_state c' = (if ack_fin c then fin_state (connection_state c) else connection_state c)"
proof -
  have A: "tx_wf (tx_buf c)" "re_tx (tx_buf c) \<noteq> [] \<longrightarrow> timer_re_tx (timers c) \<noteq> None"
    "timings c = Timings_default"
    using ok by (auto simp: conn_ok_def tx_ok_def timers_ok_def)
  obtain c' where S: "send_ack E c = Some c'" "tx_wf (tx_buf c')"
    "re_tx (tx_buf c') \<noteq> [] \<longrightarrow> timer_re_tx (timers c') \<noteq> None"
    "tx_stream c' = drop (ack_limit c) (tx_stream c)" "tx_fin_marked c' = tx_fin_marked c"
    "re_tx (tx_buf c') = re_tx (tx_buf c) @
           (if seg_len (ack_segment c) = 0 then [] else [ack_segment c])"
    "rx_buf c' = rx_buf c" "timings c' = timings c"
    "timer_timewait (timers c') = timer_timewait (timers c)"
    "timer_usertime (timers c') = timer_usertime (timers c)"
    "\<not> ack_fin c \<and> tx_stream c = [] \<longrightarrow> timers c' = timers c"
    "connection_state c' = (if ack_fin c then fin_state (connection_state c) else connection_state c)"
    by (rule send_ack_keeps [OF conn_ok_can_ack [OF ok st] A(1) room A(2), of E])
  have "conn_ok b c'"
    using st
  proof (cases rule: not_quiet_handshaking_cases)
    case 1
    with ok have "\<not> ack_fin c" "tx_stream c = []" "tx_fin_marked c" "re_tx (tx_buf c) = []"
      by (auto simp: conn_ok_def tx_ok_def ack_fin_def)
    with 1 ok S A(3) show ?thesis
      by (auto simp: conn_ok_def tx_ok_def timers_ok_def seg_len_ack_segment)
  next
    case (2 t r cc ca)
    show ?thesis
    proof (cases "ack_fin c")
      case True
      then have "tx_stream c' = []" "tx_fin_marked c'" "t = Open"
        using S 2 by (auto simp: ack_fin_def)
      with True 2 ok S A(3) show ?thesis
        by (auto simp: conn_ok_def tx_ok_def timers_ok_established rx_ok_def)
    next
      case False
      with 2 ok S A(3) show ?thesis
        by (auto simp: conn_ok_def tx_ok_def timers_ok_established seg_len_ack_segment)
    qed
  qed
  with S show thesis by (intro that) auto
qed


section \<open>Incoming segments\<close>

lemma conn_ok_user_send [simp]: "conn_ok b (user_send seg c) = conn_ok b c"
  by (simp add: conn_ok_def)

lemma conn_ok_window [simp]:
  "\<not> quiet (connection_state c) \<Longrightarrow>
     conn_ok b (c\<lparr>tx_buf := (tx_buf c)\<lparr>tx_window := w\<rparr>\<rparr>) = conn_ok b c"
  by (simp add: conn_ok_def timers_ok_def waits_ok_def)

lemma conn_ok_trigger:
  assumes "conn_ok b c" and "\<not> handshaking (connection_state c)"
  shows "conn_ok b (trigger_event E f r c)"
  using assms
  by (auto simp: conn_ok_def waits_ok_def history_simps any_suspended_iff handshaking_def)

lemma on_segment_closed_ok:
  "on_segment_closed seg c = Some c' \<Longrightarrow> conn_ok b c \<Longrightarrow> conn_ok b c'"
  by (auto simp: on_segment_closed_def bind_eq_Some_conv split: option.splits)

lemma tx_init_simps [simp]:
  "tx_init_seqn (tx_init s tx) = s" "unack (tx_init s tx) = s" "tx_next (tx_init s tx) = s"
  "tx_queue (tx_init s tx) = tx_queue tx" "re_tx (tx_init s tx) = re_tx tx"
  by (simp_all add: tx_init_def)

lemma tx_wf_init: "re_tx tx = [] \<Longrightarrow> tx_wf (tx_init s tx)"
  by (simp add: tx_wf_def tx_start_def)

lemma on_send_frame [simp]:
  "unack (on_send seg tx) = unack tx" "tx_init_seqn (on_send seg tx) = tx_init_seqn tx"
  by (simp_all add: on_send_def Let_def)

text \<open>The first segment of a connection, a SYN or SYN-ACK at the initial sequence number.\<close>

lemma first_segment:
  assumes "re_tx tx = []" and "seqn seg = s" and "seg_len seg = 1"
  shows "tx_wf (on_send seg (tx_init s tx))" and "re_tx (on_send seg (tx_init s tx)) = [seg]"
    and "tx_next (on_send seg (tx_init s tx)) = s + 1"
  using on_send_wf [OF tx_wf_init [OF assms(1)], of seg s] assms by simp_all

lemma user_new_seqn_frame [simp]:
  "fst (user_new_seqn E c) = new_seqn E (user_data c)"
  "tx_buf (snd (user_new_seqn E c)) = tx_buf c" "rx_buf (snd (user_new_seqn E c)) = rx_buf c"
  "connection_state (snd (user_new_seqn E c)) = connection_state c"
  "timers (snd (user_new_seqn E c)) = timers c" "timings (snd (user_new_seqn E c)) = timings c"
  "events (snd (user_new_seqn E c)) = events c"
  by (simp_all add: user_new_seqn_def Let_def)

lemma tx_wf_update_window [simp]: "on_send seg (tx\<lparr>tx_window := w\<rparr>) = (on_send seg tx)\<lparr>tx_window := w\<rparr>"
  by (simp add: on_send_def Let_def)

lemma on_segment_listen_ok:
  assumes "on_segment_listen E seg c = Some c'" and "conn_ok b c"
    and "connection_state c = ConnectionState.Listen"
  shows "conn_ok b c'"
proof (cases "flags_contains (flags seg) RST \<or> flags_contains (flags seg) ACK \<or>
    \<not> flags_contains (flags seg) SYN")
  case True
  with assms show ?thesis by (auto simp: on_segment_listen_def split: if_splits)
next
  case False
  have d: "rx_buf c = RxBuffer_default" "tx_buf c = TxBuffer_default"
    "timers c = Timers_default" "timings c = Timings_default"
    using assms(2,3) by (simp_all add: quiet_conn_ok)
  let ?s = "new_seqn E (user_data c)"
  let ?reply = "\<lparr>seqn = ?s, ackn = seqn seg + 1, window = INITIAL_WINDOW_SIZE,
      flags = flags_or SYN ACK, data = []\<rparr>"
  have w: "curr_window (rx_init (seqn seg) RxBuffer_default) = INITIAL_WINDOW_SIZE"
    by (simp add: word_unat_eq_iff unat_curr_window)
  have len: "seg_len ?reply = 1" by (simp add: seg_len_def flag_simps)
  note F = first_segment [OF tx_default_simps(3), of ?reply ?s, OF _ len]
  from assms(1,3) False d w show ?thesis
    by (auto simp: on_segment_listen_def user_new_seqn_def Let_def bind_assert_eq_Some SeqN_new_def
        set_state_not_closing conn_ok_def rx_ok_def tx_ok_def timers_ok_def waits_ok_def F
        window_bound_eq wrapping_add_def rx_init_def)
qed


lemma in_range_one: "in_range_inclusive a u (u + 1) \<longleftrightarrow> a = u \<or> a = u + 1"
proof -
  have "a - u \<le> 1 \<longleftrightarrow> a = u \<or> a = u + 1" by uint_arith
  then show ?thesis by (simp add: in_range_iff)
qed

lemma future_not_lte:
  assumes "0 < unat (q - (u + 1))" and "unat (q - (u + 1)) < 2 ^ 31 - 1"
  shows "\<not> seqn_lte q u"
proof -
  have "q = u + as_u32 (unat (q - (u + 1)) + 1)" by simp
  then have "unat (u - q) = 2 ^ 32 - (unat (q - (u + 1)) + 1)"
    using u32_sub_step [of "unat (q - (u + 1)) + 1" u u] assms by simp
  then show ?thesis using assms by (simp add: seqn_lte_unat)
qed

lemma clear_re_tx_range_suspended:
  "suspended (events (clear_re_tx_range E a c)) =
     filter (\<lambda>(w, _). \<not> acknowledged_by a w) (suspended (events c))"
  by (simp add: clear_re_tx_range_def Let_def history_simps)

lemma clear_re_tx_loop_Nil: "re_tx tx = [] \<Longrightarrow> clear_re_tx_loop a (re_tx tx) = []"
  by simp

lemma roomy_empty: "re_tx (tx_buf c) = [] \<Longrightarrow> roomy c"
  by (simp add: roomy_def MAX_SEGMENT_SIZE_def)

lemma conn_ok_reset: "conn_ok b (reset E c)"
  by (simp add: quiet_conn_ok any_suspended_def) (simp add: reset_def)

lemma rx_ok_init:
  assumes "rx_stream rx = []" "\<not> rx_fin rx" "rx_window rx = INITIAL_WINDOW_SIZE" "\<not> rx_done rx"
  shows "rx_ok b SynSent (rx_init s rx)" and "rx_ok b SynReceived (rx_init s rx)"
    and "rx_ok b FULLY_OPEN (rx_init s rx)"
  using assms by (simp_all add: rx_ok_def FULLY_OPEN_def window_bound_eq)

text \<open>A SYN-ACK: the invalid one leaves the handshake going, the valid one opens the connection.\<close>

lemma syn_sent_unchanged_ack:
  assumes ok: "conn_ok b c" and st: "connection_state c = SynSent" and a: "a = unack (tx_buf c)"
  shows "conn_ok b (let c = clear_re_tx_range E a (c\<lparr>rx_buf := rx_init s (rx_buf c)\<rparr>)
           in c\<lparr>tx_buf := (tx_buf c)\<lparr>unack := a, tx_window := w\<rparr>\<rparr>)"
proof -
  let ?tx = "tx_buf c" and ?ev = "events c"
  have wf: "tx_wf ?tx" and T: "tx_init_seqn ?tx = unack ?tx" "tx_next ?tx = unack ?tx + 1"
    and rx: "rx_stream (rx_buf c) = []" "\<not> rx_fin (rx_buf c)"
      "rx_window (rx_buf c) = INITIAL_WINDOW_SIZE" "\<not> rx_done (rx_buf c)"
    using ok st by (auto simp: conn_ok_def tx_ok_def rx_ok_def)
  have A: "tx_wf (tx_ack a ?tx)" and suffix: "re_tx (tx_ack a ?tx) \<noteq> [] \<Longrightarrow> re_tx ?tx \<noteq> []"
    using tx_ack_wf(1) [OF wf, of a] a clear_re_tx_loop_Nil by (auto simp: tx_ack_def)
  have eq: "?tx\<lparr>re_tx := clear_re_tx_loop a (re_tx ?tx), unack := a, tx_window := w\<rparr>
      = (tx_ack a ?tx)\<lparr>tx_window := w\<rparr>"
    by (simp add: tx_ack_def)
  have "\<not> acknowledged_by a wt" if "(wt, k) \<in> set (suspended ?ev)" for wt k
    using ok st that a T(2) future_not_lte [of _ a]
    by (auto simp: conn_ok_def waits_ok_def acknowledged_by_def split: WaitUntil.split)
  then have "suspended (events (clear_re_tx_range E a (c\<lparr>rx_buf := rx_init s (rx_buf c)\<rparr>)))
      = suspended ?ev"
    by (auto simp: clear_re_tx_range_suspended filter_id_conv)
  then show ?thesis
    using ok st A suffix T rx_ok_init(1) [OF rx, of b s] a
    by (auto simp: Let_def conn_ok_def eq timers_ok_def waits_ok_def any_suspended_iff tx_ok_def
        tx_ack_def)
qed

lemma on_segment_syn_sent_ok:
  assumes H: "on_segment_syn_sent E seg c = Some c'" and ok: "conn_ok b c"
    and st: "connection_state c = SynSent"
  shows "conn_ok b c'"
proof -
  let ?tx = "tx_buf c" and ?a = "ackn seg"
  have wf: "tx_wf ?tx" and T: "tx_init_seqn ?tx = unack ?tx" "tx_next ?tx = unack ?tx + 1"
    and tm: "timer_usertime (timers c) = None" "timer_timewait (timers c) = None"
    and rx: "rx_stream (rx_buf c) = []" "\<not> rx_fin (rx_buf c)"
      "rx_window (rx_buf c) = INITIAL_WINDOW_SIZE" "\<not> rx_done (rx_buf c)"
      "timings c = Timings_default"
    using ok st by (auto simp: conn_ok_def tx_ok_def rx_ok_def timers_ok_def)
  let ?c0 = "clear_re_tx_range E ?a (c\<lparr>rx_buf := rx_init (seqn seg) (rx_buf c)\<rparr>)"
  let ?c1 = "?c0\<lparr>tx_buf := (tx_buf ?c0)\<lparr>unack := ?a, tx_window := window seg\<rparr>\<rparr>"
  consider (reply) "flags_contains (flags seg) ACK" "\<not> in_range_inclusive ?a (unack ?tx) (tx_next ?tx)"
    | (reset) "flags_contains (flags seg) RST"
      "flags_contains (flags seg) ACK \<longrightarrow> in_range_inclusive ?a (unack ?tx) (tx_next ?tx)"
    | (drop) "\<not> flags_contains (flags seg) RST" "\<not> flags_contains (flags seg) (flags_or SYN ACK)"
      "flags_contains (flags seg) ACK \<longrightarrow> in_range_inclusive ?a (unack ?tx) (tx_next ?tx)"
    | (old) "\<not> flags_contains (flags seg) RST" "flags_contains (flags seg) (flags_or SYN ACK)"
      "?a = unack ?tx"
    | (opened) "\<not> flags_contains (flags seg) RST" "flags_contains (flags seg) (flags_or SYN ACK)"
      "?a = unack ?tx + 1"
    using in_range_one [of ?a "unack ?tx"] T(2) by (auto simp: flag_simps)
  then show ?thesis
  proof cases
    case old
    with H T have "c' = ?c1"
      by (auto simp: on_segment_syn_sent_def Let_def wrapping_add_def)
    with syn_sent_unchanged_ack [OF ok st old(3), of E "seqn seg" "window seg"] show ?thesis
      by (simp add: Let_def)
  next
    case opened
    have r: "in_range_inclusive ?a (unack ?tx) (tx_next ?tx)" using opened T by simp
    from H opened T have "Option.bind (set_state E FULLY_OPEN ?c1) (send_ack E) = Some c'"
      by (auto simp: on_segment_syn_sent_def Let_def wrapping_add_def)
    then obtain c2 where c2: "set_state E FULLY_OPEN ?c1 = Some c2" and c': "send_ack E c2 = Some c'"
      by (auto simp: bind_eq_Some_conv)
    note A = tx_ack_wf [OF wf r]
    have eq: "tx_buf ?c1 = (tx_ack ?a ?tx)\<lparr>tx_window := window seg\<rparr>"
      by (simp add: tx_ack_def)
    have empty: "re_tx (tx_ack ?a ?tx) = []" using A(3) opened T by simp
    have ok2: "conn_ok b c2"
      using c2 unfolding FULLY_OPEN_def
      by (rule set_state_established_ok)
        (use rx_ok_init(3) [OF rx(1-4), of b "seqn seg", unfolded FULLY_OPEN_def] A(1) empty tm rx(5) in
          \<open>simp_all add: eq tx_ok_def timers_ok_def del: clear_re_tx_range_frame(5)\<close>)
    have st2: "connection_state c2 = FULLY_OPEN" and tx2: "tx_buf c2 = tx_buf ?c1"
      using c2 by (auto simp: set_state_not_closing FULLY_OPEN_def split: if_splits)
    have "roomy c2" using tx2 empty eq by (intro roomy_empty) simp
    then show ?thesis
      using send_ack_ok [OF ok2, of E] c' st2 by (auto simp: FULLY_OPEN_def)
  qed (use H ok in \<open>auto simp: on_segment_syn_sent_def conn_ok_reset\<close>)
qed


section \<open>Segments on an open connection\<close>

lemma in_window_unat:
  assumes "rx_window rx = INITIAL_WINDOW_SIZE"
  shows "in_window rx s \<longleftrightarrow> unat (s - ackd rx) < window_bound"
proof -
  have "in_window rx s \<longleftrightarrow> s - ackd rx \<le> 4095"
    by (simp add: in_window_def in_range_iff wrapping_add_def wrapping_sub_def assms
        INITIAL_WINDOW_SIZE_def)
  then show ?thesis by (simp add: word_le_nat_alt window_bound_eq less_Suc_eq_le [symmetric])
qed

text \<open>An accepted segment that starts at the acknowledgement point fits the buffer.\<close>

lemma accepted_in_order:
  assumes ok: "check_segment_seq_ok c seg" and w: "rx_window (rx_buf c) = INITIAL_WINDOW_SIZE"
    and s: "seqn seg = ackd (rx_buf c)" and len: "seg_len seg < 2 ^ 32"
  shows "seg_len seg = 0 \<or> \<not> rx_fin (rx_buf c) \<and> length (rx_stream (rx_buf c)) < window_bound \<and>
    seg_len seg \<le> window_bound"
proof (cases "seg_len seg = 0")
  case False
  have z: "seq_size seg \<noteq> 0" using False seq_size_eq_0 [OF len] by simp
  with ok have cw: "curr_window (rx_buf c) \<noteq> 0"
    and "in_window (rx_buf c) (seqn seg + seq_size seg - 1)"
    by (auto simp: check_segment_seq_ok_def wrapping_add_def wrapping_sub_def split: if_splits)
  then have "unat (seq_size seg - 1) < window_bound"
    using in_window_unat [OF w] s by (simp add: algebra_simps)
  moreover have "unat (seq_size seg - 1) = seg_len seg - 1"
    using z unat_seq_size [OF len] by (simp add: unat_minus_one)
  moreover have "unat (curr_window (rx_buf c)) \<noteq> 0" using cw by (simp add: unat_eq_zero)
  ultimately show ?thesis using w by (auto simp: unat_curr_window split: if_splits)
qed simp

lemma accepted_not_fin:
  assumes ok: "check_segment_seq_ok c seg" and f: "rx_fin (rx_buf c)" and len: "seg_len seg < 2 ^ 32"
  shows "seg_len seg = 0"
proof -
  have "unat (curr_window (rx_buf c)) = 0" using f by (simp add: unat_curr_window)
  then have "curr_window (rx_buf c) = 0" by (simp add: unat_eq_zero)
  with ok show ?thesis using seq_size_eq_0 [OF len] by (simp add: check_segment_seq_ok_def)
qed

lemma on_rst_ok: "on_rst E c = Some c' \<Longrightarrow> conn_ok b c'"
  by (auto simp: on_rst_def set_state_not_closing enter_state_def out_clear_def
      established_triggers_def quiet_conn_ok any_suspended_def split: ConnectionState.splits if_splits)

lemma on_syn_ok: "on_syn E c = Some c' \<Longrightarrow> conn_ok b c'"
  by (auto simp: on_syn_def Let_def set_state_not_closing enter_state_def out_clear_def
      established_triggers_def quiet_conn_ok any_suspended_def split: if_splits)

lemma window_update_frame:
  assumes "window_update dbg seg c = Some c'"
  obtains w k where "c' = c\<lparr>congestion_window := k, tx_buf := (tx_buf c)\<lparr>tx_window := w\<rparr>\<rparr>"
  using assms by (auto simp: window_update_def Let_def bind_eq_Some_conv)

lemma conn_ok_congestion [simp]: "conn_ok b (c\<lparr>congestion_window := k\<rparr>) = conn_ok b c"
  by (simp add: conn_ok_def)

lemma on_new_ack_ok:
  assumes H: "on_new_ack E seg c = Some c'" and ok: "conn_ok b c"
    and st: "connection_state c = ConnectionState.Established t r cc ca"
    and a: "in_range_inclusive (ackn seg) (unack (tx_buf c)) (tx_next (tx_buf c))"
  shows "conn_ok b c'" and "connection_state c' = connection_state c"
    and "rx_buf c' = rx_buf c" and "tx_next (tx_buf c') = tx_next (tx_buf c)"
    and "unack (tx_buf c') = ackn seg" and "re_tx (tx_buf c') = clear_re_tx_loop (ackn seg) (re_tx (tx_buf c))"
proof -
  let ?a = "ackn seg" and ?tx = "tx_buf c"
  have wf: "tx_wf ?tx" using ok by (simp add: conn_ok_def tx_ok_def)
  from H obtain c0 where c0: "window_update (debug_assertions E) seg c = Some c0"
    by (auto simp: on_new_ack_def bind_eq_Some_conv)
  from c0 obtain w k where k: "c0 = c\<lparr>congestion_window := k, tx_buf := ?tx\<lparr>tx_window := w\<rparr>\<rparr>"
    by (rule window_update_frame)
  have c': "c' =
      (let c = c\<lparr>congestion_window := k, tx_buf := ?tx\<lparr>tx_window := w\<rparr>\<rparr>;
           c = trigger_event E (readable (rx_available_bytes (rx_buf c))) (Ok ()) c;
           c = clear_re_tx_range E ?a c;
           c = c\<lparr>tx_buf := (tx_buf c)\<lparr>unack := ?a\<rparr>\<rparr>;
           c = c\<lparr>exp_backoff := 1\<rparr>;
           c = (if re_tx (tx_buf c) = [] then c\<lparr>timers := (timers c)\<lparr>timer_re_tx := None\<rparr>\<rparr>
                 else set_timer_re_tx E (rto (timings c)) c)
       in trigger_event E (acknowledged_by ?a) (Ok ()) c)"
    using H by (simp only: on_new_ack_def c0 bind.bind_lunit k option.inject Let_def)
  have tx': "tx_buf c' = (tx_ack ?a ?tx)\<lparr>tx_window := w\<rparr>"
    unfolding c' Let_def by (auto simp: tx_ack_def)
  show "rx_buf c' = rx_buf c" "connection_state c' = connection_state c"
    unfolding c' Let_def by auto
  have tm: "timings c' = timings c" "timer_usertime (timers c') = timer_usertime (timers c)"
    "timer_timewait (timers c') = timer_timewait (timers c)"
    "re_tx (tx_buf c') \<noteq> [] \<longrightarrow> timer_re_tx (timers c') \<noteq> None"
    unfolding c' Let_def by auto
  show "tx_next (tx_buf c') = tx_next ?tx" "unack (tx_buf c') = ?a"
    "re_tx (tx_buf c') = clear_re_tx_loop ?a (re_tx ?tx)"
    by (simp_all add: tx' tx_ack_def)
  have "tx_wf (tx_ack ?a ?tx)" using tx_ack_wf(1) [OF wf a] .
  moreover have "re_tx ?tx = [] \<longrightarrow> re_tx (tx_ack ?a ?tx) = []"
    "tx_queue (tx_ack ?a ?tx) = tx_queue ?tx" by (simp_all add: tx_ack_def)
  ultimately show "conn_ok b c'"
    using ok st tm \<open>rx_buf c' = rx_buf c\<close> \<open>connection_state c' = connection_state c\<close>
    by (auto simp: conn_ok_def tx' tx_ok_def timers_ok_established)
qed

lemma tx_wf_all_acked:
  assumes wf: "tx_wf tx" and u: "unack tx = tx_next tx"
  shows "re_tx tx = []"
proof (rule ccontr)
  assume "re_tx tx \<noteq> []"
  then obtain seg segs where r: "re_tx tx = seg # segs" by (cases "re_tx tx") auto
  have "tx_next tx - seqn seg = as_u32 (flight (re_tx tx))"
    using tx_wf_start(2) [OF wf] r by (simp add: tx_start_def del: flight_simps of_nat_add)
  moreover have "flight (re_tx tx) < 2 ^ 32" using wf by (simp add: tx_wf_def)
  ultimately have "unat (tx_next tx - seqn seg) = flight (re_tx tx)"
    by (simp only: unat_of_nat_u32)
  moreover have "unat (tx_next tx - seqn seg) < seg_len seg"
    using wf r u unfolding tx_wf_def by (elim conjE) (simp only: list.case)
  ultimately show False using r by simp
qed

end
