(* ===== verification/Tcp_Preserve.thy ===== *)
theory Tcp_Preserve
  imports Tcp_Api Tcp_Invariant
begin

text \<open>
  Every operation of a connection keeps it well-formed: the stages of the segment handler,
  the user's calls and the timers, up to the connection as a machine (\<open>conn_step\<close>).
\<close>

section \<open>Acknowledgements\<close>

lemma flight_clear_le: "flight (clear_re_tx_loop a segs) \<le> flight segs"
  by (induction segs) auto

lemma roomy_le: "roomy c \<Longrightarrow> flight (re_tx (tx_buf c')) \<le> flight (re_tx (tx_buf c)) \<Longrightarrow> roomy c'"
  by (simp add: roomy_def)

lemma on_ack_of_fin_cases:
  assumes "on_ack_of_fin E seg c = Some c'"
  obtains (same) "c' = c"
  | (fin) r cc ca where "connection_state c = ConnectionState.Established Fin r cc ca"
      "ackn seg = tx_next (tx_buf c)"
      "set_state E (ConnectionState.Established ChannelState.Closed r cc ca) c = Some c'"
  using assms
  by (auto simp: on_ack_of_fin_def bind_debug_assert_eq_Some split: ConnectionState.splits if_splits)

text \<open>The last acknowledgement of a passive close, after which the connection is gone.\<close>

definition last_ack :: "SegmentMeta \<Rightarrow> ('a, 't) Connection \<Rightarrow> bool" where
  "last_ack seg c \<longleftrightarrow> ackn seg = tx_next (tx_buf c) \<and>
     connection_state c = ConnectionState.Established Fin ChannelState.Closed True False"

text \<open>
  In a release build, a segment with sequence number 0 that is the last acknowledgement is taken
  for the next one of the connection it has just closed. The theorems leave this segment out.
\<close>

definition not_stray :: "('a, 't) env \<Rightarrow> SegmentMeta \<Rightarrow> ('a, 't) Connection \<Rightarrow> bool" where
  "not_stray E seg c \<longleftrightarrow> debug_assertions E \<or> seqn seg \<noteq> 0 \<or> \<not> last_ack seg c"

lemma not_stray_window [simp]:
  "not_stray E seg (c\<lparr>tx_buf := (tx_buf c)\<lparr>tx_window := w\<rparr>\<rparr>) = not_stray E seg c"
  by (simp add: not_stray_def last_ack_def)

lemma closed_by_last_ack:
  assumes "c1 = (if connection_state c = SynReceived then enter_state E FULLY_OPEN c else c)"
    and c2: "connection_state c2 = connection_state c1" "tx_next (tx_buf c2) = tx_next (tx_buf c1)"
    and H: "on_ack_of_fin E seg c2 = Some c3" and "connection_state c3 = ConnectionState.Closed"
    and "\<not> quiet (connection_state c)"
  shows "last_ack seg c"
  using H
proof (cases rule: on_ack_of_fin_cases)
  case same
  with assms show ?thesis by (auto simp: FULLY_OPEN_def split: if_splits)
next
  case (fin r cc ca)
  from fin(3) have "r = ChannelState.Closed \<and> cc \<and> \<not> ca"
    by (rule set_state_cases) (use assms(5) in auto)
  with fin assms(1) c2 show ?thesis by (auto simp: last_ack_def FULLY_OPEN_def split: if_splits)
qed

lemma on_ack_of_fin_ok:
  assumes H: "on_ack_of_fin E seg c = Some c'" and ok: "conn_ok b c"
    and u: "unack (tx_buf c) = ackn seg"
  shows "conn_ok b c' \<and>
      (c' = c \<or> (connection_state c' = ConnectionState.Closed \<and> last_ack seg c) \<or>
      rx_buf c' = rx_buf c \<and> flight (re_tx (tx_buf c')) \<le> flight (re_tx (tx_buf c)) \<and>
      (connection_state c' = TimeWait \<or>
       (\<exists>r cc ca. connection_state c = ConnectionState.Established Fin r cc ca \<and>
          connection_state c' = ConnectionState.Established ChannelState.Closed r cc ca)))"
  using H
proof (cases rule: on_ack_of_fin_cases)
  case (fin r cc ca)
  have re: "re_tx (tx_buf c) = []"
    using ok u fin(2) by (intro tx_wf_all_acked) (simp_all add: conn_ok_def tx_ok_def)
  have "conn_ok b c'"
    using fin(3) by (rule set_state_established_ok)
      (use ok fin(1) re in \<open>auto simp: conn_ok_def rx_ok_def tx_ok_def timers_ok_established\<close>)
  moreover from fin(3) have "(connection_state c' = ConnectionState.Closed \<and> last_ack seg c) \<or>
    rx_buf c' = rx_buf c \<and> tx_buf c' = tx_buf c \<and>
    (connection_state c' = TimeWait \<or>
        connection_state c' = ConnectionState.Established ChannelState.Closed r cc ca)"
    by (rule set_state_cases) (use fin in \<open>auto simp: last_ack_def\<close>)
  ultimately show ?thesis using fin(1) by auto
qed (use ok in simp)

section \<open>Storing a segment\<close>

text \<open>An in-order segment fits the receive buffer, and after a FIN only empty ones come.\<close>

definition fits :: "SegmentMeta \<Rightarrow> RxBuffer \<Rightarrow> bool" where
  "fits seg rx \<longleftrightarrow> (seqn seg = ackd rx \<longrightarrow> seg_len seg = 0 \<or>
     \<not> rx_fin rx \<and> length (rx_stream rx) < window_bound \<and> seg_len seg \<le> window_bound)"

lemma seg_len_0D:
  "seg_len seg = 0 \<Longrightarrow> data seg = [] \<and> \<not> flags_contains (flags seg) FIN \<and> \<not> flags_contains (flags seg) SYN"
  by (simp add: seg_len_def split: if_splits)

lemma length_data_le: "length (data seg) \<le> seg_len seg"
  by (simp add: seg_len_def)

lemma rx_write_ok:
  assumes H: "rx_write dbg seg rx = Some rx'" and ok: "rx_ok False s rx"
    and st: "\<not> quiet s" "\<not> handshaking s" and f: "fits seg rx" "seqn seg = ackd rx"
  shows "rx_ok (flags_contains (flags seg) FIN) s rx'"
proof -
  note W = rx_writeD [OF H]
  have room: "length (rx_stream rx) + length (data seg) < 2 * window_bound"
    using f ok length_data_le [of seg] seg_len_0D [of seg] by (auto simp: fits_def rx_ok_def)
  have d: "rx_done rx \<longrightarrow> data seg = []"
    using f ok seg_len_0D [of seg] by (auto simp: fits_def rx_ok_def)
  show ?thesis
    using st
  proof (cases rule: not_quiet_handshaking_cases)
    case 1
    with ok W room d show ?thesis by (auto simp: rx_ok_def)
  next
    case (2 t r cc ca)
    with ok W room d show ?thesis by (auto simp: rx_ok_def)
  qed
qed

lemma send_ack_closed:
  assumes "send_ack E c = Some c'" and "debug_assertions E"
  shows "connection_state c \<noteq> ConnectionState.Closed"
proof -
  obtain bs c1 q where "send_ack_take E c = Some (bs, c1)" "connection_state c1 = connection_state c"
    by (rule send_ack_take_spec [of E c])
  with assms show ?thesis by (cases bs) (auto simp: send_ack_def)
qed

lemma store_segment_ok:
  assumes H: "store_segment E seg c = Some (go_on, c')" and ok: "conn_ok False c"
    and st: "\<not> quiet (connection_state c)" "\<not> handshaking (connection_state c)"
    and room: "roomy c" and f: "fits seg (rx_buf c)"
  shows "conn_ok (go_on \<and> flags_contains (flags seg) FIN) c' \<and>
    (connection_state c' = connection_state c \<or> connection_state c' = fin_state (connection_state c)
       \<and> state_tx (connection_state c) = Open)"
proof (cases "seqn seg = ackd (rx_buf c)")
    case True
    with H obtain rx' where rx': "rx_write (debug_assertions E) seg (rx_buf c) = Some rx'"
      and go: "go_on" and c': "send_ack E (c\<lparr>rx_buf := rx'\<rparr>) = Some c'"
      by (auto simp: store_segment_def bind_eq_Some_conv)
    have "rx_ok (flags_contains (flags seg) FIN) (connection_state c) rx'"
      using rx_write_ok [OF rx' _ st f True] ok by (simp add: conn_ok_def)
    then have "conn_ok (flags_contains (flags seg) FIN) (c\<lparr>rx_buf := rx'\<rparr>)"
      using ok by (simp add: conn_ok_def)
    then obtain c'' where "send_ack E (c\<lparr>rx_buf := rx'\<rparr>) = Some c''"
        "conn_ok (flags_contains (flags seg) FIN) c''"
        "connection_state c'' = (if ack_fin (c\<lparr>rx_buf := rx'\<rparr>)
           then fin_state (connection_state c) else connection_state c)"
      by (rule send_ack_ok [of _ "c\<lparr>rx_buf := rx'\<rparr>" E]) (use st room in \<open>simp_all add: roomy_def\<close>)
    with c' go show ?thesis by (auto simp: ack_fin_def)
qed (use H ok in \<open>auto simp: store_segment_def split: if_splits\<close>)

lemma store_segment_gone:
  assumes H: "store_segment E seg c = Some (go_on, c')" and ok: "conn_ok False c"
    and st: "connection_state c = ConnectionState.Closed" and d: "debug_assertions E \<or> seqn seg \<noteq> 0"
  shows "conn_ok False c'" and "connection_state c' = ConnectionState.Closed"
proof -
  have "ackd (rx_buf c) = 0" using ok st by (simp add: quiet_conn_ok)
  with H d st have "seqn seg \<noteq> ackd (rx_buf c)"
    using send_ack_closed [of E "c\<lparr>rx_buf := rx\<rparr>" c' for rx] by (auto simp: store_segment_def bind_eq_Some_conv)
  with H have "c' = c \<or> (\<exists>s. c' = user_send s c)"
    by (auto simp: store_segment_def split: if_splits)
  with ok st show "conn_ok False c'" "connection_state c' = ConnectionState.Closed" by auto
qed


section \<open>The acknowledgement stage\<close>

lemma state_rx_simps [simp]:
  "state_rx (ConnectionState.Established t r cc ca) = r" "state_rx SynReceived = Open"
  "state_rx TimeWait = ChannelState.Closed"
  by (simp_all add: state_rx_def)

lemma TimeWait_all_acked:
  "conn_ok b c \<Longrightarrow> connection_state c = TimeWait \<Longrightarrow> unack (tx_buf c) = tx_next (tx_buf c)"
  by (auto simp: conn_ok_def tx_ok_def tx_wf_def)

lemma open_ok:
  assumes "conn_ok False c" and "connection_state c = SynReceived"
  shows "conn_ok False (enter_state E FULLY_OPEN c)"
  using assms
  by (auto simp: conn_ok_def FULLY_OPEN_def rx_ok_def tx_ok_def timers_ok_def)

definition close_flags :: "ConnectionState \<Rightarrow> bool \<times> bool" where
  "close_flags s = (case s of ConnectionState.Established _ _ cc ca \<Rightarrow> (cc, ca) | _ \<Rightarrow> (False, False))"

text \<open>
  The states an acknowledgement leads to: closed, TIME-WAIT, or open with the receive channel
  and the close flags as before and the transmit channel no less advanced.
\<close>

definition ack_state :: "ConnectionState \<Rightarrow> ConnectionState \<Rightarrow> bool" where
  "ack_state s s' \<longleftrightarrow>
     (case s' of
        ConnectionState.Closed \<Rightarrow> True
      | TimeWait \<Rightarrow> True
      | ConnectionState.Established t r cc ca \<Rightarrow>
          r = state_rx s \<and> (cc, ca) = close_flags s \<and> (t = Open \<longrightarrow> state_tx s = Open)
      | _ \<Rightarrow> False)"

lemma close_flags_simps [simp]:
  "close_flags (ConnectionState.Established t r cc ca) = (cc, ca)"
  "close_flags SynReceived = (False, False)"
  by (simp_all add: close_flags_def)

lemma ack_state_simps [simp]:
  "ack_state s ConnectionState.Closed" "ack_state s TimeWait"
  "ack_state s (ConnectionState.Established t r cc ca) \<longleftrightarrow>
     r = state_rx s \<and> (cc, ca) = close_flags s \<and> (t = Open \<longrightarrow> state_tx s = Open)"
  "\<not> ack_state s SynReceived" "\<not> ack_state s SynSent" "\<not> ack_state s Reset"
  "\<not> ack_state s ConnectionState.Listen"
  by (auto simp: ack_state_def)

lemma ack_state_fin: "ack_state s s' \<Longrightarrow> state_tx s' = Open \<Longrightarrow> ack_state s (fin_state s')"
  by (cases s') (auto simp: state_tx_def)

lemma on_ack_of_fin_fits:
  assumes "on_ack_of_fin E seg c = Some c'" and "conn_ok False c" and "unack (tx_buf c) = ackn seg"
    and "\<not> quiet (connection_state c)" "\<not> handshaking (connection_state c)"
    and "roomy c" and "fits seg (rx_buf c)" and "ack_state s (connection_state c)"
  shows "conn_ok False c' \<and> ack_state s (connection_state c') \<and>
    (connection_state c' = ConnectionState.Closed \<or>
      \<not> quiet (connection_state c') \<and> \<not> handshaking (connection_state c') \<and> roomy c' \<and>
      fits seg (rx_buf c'))"
  using on_ack_of_fin_ok [OF assms(1-3)] assms(4-) roomy_le [OF assms(6), of c']
  by (elim conjE disjE exE) (simp_all add: last_ack_def)

lemma store_segment_fits:
  assumes H: "store_segment E seg c = Some (go_on, c')" and ok: "conn_ok False c"
    and st: "connection_state c = ConnectionState.Closed \<or>
      \<not> quiet (connection_state c) \<and> \<not> handshaking (connection_state c) \<and> roomy c \<and>
      fits seg (rx_buf c)"
    and s: "ack_state s (connection_state c)"
    and d: "connection_state c = ConnectionState.Closed \<Longrightarrow> debug_assertions E \<or> seqn seg \<noteq> 0"
  shows "conn_ok (go_on \<and> flags_contains (flags seg) FIN) c' \<and> ack_state s (connection_state c')"
  using st
proof
  assume st: "connection_state c = ConnectionState.Closed"
  from store_segment_gone [OF H ok st d [OF st]] s show ?thesis
    by (simp add: quiet_conn_ok)
next
  assume "\<not> quiet (connection_state c) \<and> \<not> handshaking (connection_state c) \<and> roomy c \<and>
      fits seg (rx_buf c)"
  with store_segment_ok [OF H ok] s ack_state_fin [OF s] show ?thesis by auto
qed

lemma on_ack_cases:
  assumes "on_ack E seg c = Some (go_on, c')"
  obtains (invalid) "go_on = False" "c' = c"
      "\<not> in_range_inclusive (ackn seg) (unack (tx_buf c)) (tx_next (tx_buf c))"
  | (valid) c1 c2 c3 where "in_range_inclusive (ackn seg) (unack (tx_buf c)) (tx_next (tx_buf c))"
      "c1 = (if connection_state c = SynReceived then enter_state E FULLY_OPEN c else c)"
      "(if unack (tx_buf c1) \<noteq> ackn seg then on_new_ack E seg c1 else Some c1) = Some c2"
      "on_ack_of_fin E seg c2 = Some c3" "store_segment E seg c3 = Some (go_on, c')"
proof (cases "in_range_inclusive (ackn seg) (unack (tx_buf c)) (tx_next (tx_buf c))")
  case False
  with assms invalid show thesis by (auto simp: on_ack_def)
next
  case True
  define c1 where
    "c1 = (if connection_state c = SynReceived then enter_state E FULLY_OPEN c else c)"
  have "(if connection_state c = SynReceived \<and>
      in_range_inclusive (ackn seg) (unack (tx_buf c)) (tx_next (tx_buf c))
      then set_state E FULLY_OPEN c else Some c) = Some c1"
    using True by (simp add: set_state_not_closing FULLY_OPEN_def c1_def)
  moreover have "tx_buf c1 = tx_buf c" by (simp add: c1_def)
  ultimately obtain c2 c3 where
      "(if unack (tx_buf c1) \<noteq> ackn seg then on_new_ack E seg c1 else Some c1) = Some c2"
      "on_ack_of_fin E seg c2 = Some c3" "store_segment E seg c3 = Some (go_on, c')"
    using assms True unfolding on_ack_def by (auto simp: bind_eq_Some_conv Let_def split: if_splits)
  with True c1_def show thesis by (rule valid)
qed

lemma open_stage:
  assumes c1: "c1 = (if connection_state c = SynReceived then enter_state E FULLY_OPEN c else c)"
    and ok: "conn_ok False c" and st: "\<not> quiet (connection_state c)" "connection_state c \<noteq> SynSent"
  shows "conn_ok False c1 \<and> tx_buf c1 = tx_buf c \<and> rx_buf c1 = rx_buf c \<and>
    congestion_window c1 = congestion_window c \<and> \<not> quiet (connection_state c1) \<and>
    \<not> handshaking (connection_state c1) \<and> ack_state (connection_state c) (connection_state c1)"
  using c1 ok open_ok [OF ok, of E] st
  by (cases "connection_state c"; simp add: FULLY_OPEN_def handshaking_def)

lemma acked_stage:
  assumes n: "(if unack (tx_buf c) \<noteq> ackn seg then on_new_ack E seg c else Some c) = Some c'"
    and ok: "conn_ok False c" and st: "\<not> quiet (connection_state c)" "\<not> handshaking (connection_state c)"
    and room: "roomy c" and a: "in_range_inclusive (ackn seg) (unack (tx_buf c)) (tx_next (tx_buf c))"
  shows "conn_ok False c' \<and> connection_state c' = connection_state c \<and> rx_buf c' = rx_buf c \<and>
    unack (tx_buf c') = ackn seg \<and> tx_next (tx_buf c') = tx_next (tx_buf c) \<and> roomy c'"
proof (cases "unack (tx_buf c) = ackn seg")
  case True
  with n ok room show ?thesis by simp
next
  case False
  with n have n: "on_new_ack E seg c = Some c'" by simp
  have "connection_state c \<noteq> TimeWait"
    using False a TimeWait_all_acked [OF ok] by (auto simp: in_range_same)
  with st obtain t r cc ca where e: "connection_state c = ConnectionState.Established t r cc ca"
    by (cases "connection_state c") auto
  note N = on_new_ack_ok [OF n ok e a]
  have "roomy c'" using roomy_le [OF room, of c'] flight_clear_le N(6) by simp
  with N show ?thesis by simp
qed

lemma on_ack_ok:
  assumes H: "on_ack E seg c = Some (go_on, c')" and ok: "conn_ok False c"
    and st: "\<not> quiet (connection_state c)" "connection_state c \<noteq> SynSent"
    and room: "roomy c" and f: "fits seg (rx_buf c)" and d: "not_stray E seg c"
  shows "conn_ok (go_on \<and> flags_contains (flags seg) FIN) c' \<and>
    (if go_on then ack_state (connection_state c) (connection_state c')
     else connection_state c' = connection_state c \<or> ack_state (connection_state c) (connection_state c'))"
  using H
proof (cases rule: on_ack_cases)
  case invalid
  with ok show ?thesis by simp
next
  case (valid c1 c2 c3)
  let ?s = "connection_state c"
  note c1 = open_stage [OF valid(2) ok st]
  then have "roomy c1" using room by (simp add: roomy_def)
  with acked_stage [OF valid(3)] c1 valid(1)
  have c2: "conn_ok False c2 \<and> connection_state c2 = connection_state c1 \<and> rx_buf c2 = rx_buf c1 \<and>
    unack (tx_buf c2) = ackn seg \<and> tx_next (tx_buf c2) = tx_next (tx_buf c1) \<and> roomy c2" by simp
  then have c3: "conn_ok False c3 \<and> ack_state ?s (connection_state c3) \<and>
    (connection_state c3 = ConnectionState.Closed \<or>
      \<not> quiet (connection_state c3) \<and> \<not> handshaking (connection_state c3) \<and> roomy c3 \<and>
      fits seg (rx_buf c3))"
    using c1 f by (intro on_ack_of_fin_fits [OF valid(4)]) simp_all
  have "debug_assertions E \<or> seqn seg \<noteq> 0" if "connection_state c3 = ConnectionState.Closed"
    using closed_by_last_ack [OF valid(2) _ _ valid(4) that st(1)] c2 d by (auto simp: not_stray_def)
  then have "conn_ok (go_on \<and> flags_contains (flags seg) FIN) c' \<and> ack_state ?s (connection_state c')"
    using c3 by (intro store_segment_fits [OF valid(5)]) simp_all
  then show ?thesis by simp
qed

section \<open>The FIN stage and the whole handler\<close>

lemma conn_ok_trigger_any:
  assumes "conn_ok b c" and "\<not> quiet (connection_state c)" "\<not> handshaking (connection_state c)"
  shows "conn_ok b (trigger_event E f r c)"
  using assms by (intro conn_ok_trigger)

lemma on_fin_ok:
  assumes H: "on_fin E non_ordered c = Some c'" and ok: "conn_ok True c"
    and st: "\<not> quiet (connection_state c)" "connection_state c \<noteq> SynSent"
    and r: "state_rx (connection_state c) \<noteq> ChannelState.Closed \<or> connection_state c = TimeWait"
  shows "conn_ok False c'"
proof (cases "connection_state c")
  case TimeWait
  with H ok show ?thesis
    by (auto simp: on_fin_def Let_def conn_ok_def timers_ok_def rx_ok_def timers_clear_def
        split: if_splits)
next
  case SynReceived
  from H have "set_state E (ConnectionState.Established Open Fin False False)
      (trigger_event E is_Recv (Ok ()) c) = Some c'"
    by (simp add: on_fin_def SynReceived)
  then show ?thesis
    by (rule set_state_established_ok)
      (use ok SynReceived in \<open>auto simp: conn_ok_def rx_ok_def tx_ok_def timers_ok_def\<close>)
next
  case (Established t rx cc ca)
  from H Established r have "set_state E (ConnectionState.Established t Fin cc ca)
      (trigger_event E is_Recv (Ok ()) c) = Some c'"
    by (cases rx) (simp_all add: on_fin_def)
  then show ?thesis
    by (rule set_state_established_ok)
      (use ok Established r in \<open>auto simp: conn_ok_def rx_ok_def tx_ok_def timers_ok_def\<close>)
qed (use st in auto)

lemma conn_ok_pending: "conn_ok False c \<Longrightarrow> conn_ok True c"
  by (auto simp: conn_ok_def rx_ok_def split: ConnectionState.splits)

lemma on_fin_after_ack:
  assumes "conn_ok True c" and "ack_state s (connection_state c)" and "connection_state c \<noteq> ConnectionState.Closed"
    and "state_rx s \<noteq> ChannelState.Closed" and "on_fin E b c = Some c'"
  shows "conn_ok False c'"
  using assms(2-4) by (intro on_fin_ok [OF assms(5,1)]; cases "connection_state c") auto

lemma fits_accepted:
  assumes "conn_wf c" and "check_segment_seq_ok c seg" and "seg_len seg < 2 ^ 32"
  shows "fits seg (rx_buf c)"
  using accepted_in_order [OF assms(2) _ _ assms(3)] assms(1)
  by (auto simp: fits_def conn_ok_def rx_ok_def)

lemma on_segment_synchronized_cases:
  assumes H: "on_segment_synchronized E seg c = Some c'"
    and c0: "c0 = c\<lparr>tx_buf := (tx_buf c)\<lparr>tx_window := min (window seg) (congestion_window c)\<rparr>\<rparr>"
    and st: "\<not> quiet (connection_state c)" "connection_state c \<noteq> SynSent"
  obtains (unacceptable) "\<not> check_segment_seq_ok c seg" "c' = on_unacceptable seg c"
  | (rst) "flags_contains (flags seg) RST" "on_rst E c0 = Some c'"
  | (syn) "\<not> flags_contains (flags seg) RST" "flags_contains (flags seg) SYN" "on_syn E c0 = Some c'"
  | (drop) "check_segment_seq_ok c seg" "\<not> flags_contains (flags seg) SYN"
      "\<not> flags_contains (flags seg) FIN" "c' = c0" "\<not> flags_contains (flags seg) RST"
  | (fin) b where "check_segment_seq_ok c seg" "\<not> flags_contains (flags seg) SYN"
      "flags_contains (flags seg) FIN" "\<not> flags_contains (flags seg) ACK" "on_fin E b c0 = Some c'"
      "\<not> flags_contains (flags seg) RST"
  | (ack) go_on where "check_segment_seq_ok c seg" "\<not> flags_contains (flags seg) SYN"
      "on_ack E seg c0 = Some (go_on, c')"
      "\<not> go_on \<or> \<not> flags_contains (flags seg) FIN \<or> connection_state c' = ConnectionState.Closed \<or>
         connection_state c' = ConnectionState.Listen \<or> connection_state c' = SynSent"
      "\<not> flags_contains (flags seg) RST" "flags_contains (flags seg) ACK"
  | (ack_fin) c1 b where "check_segment_seq_ok c seg" "\<not> flags_contains (flags seg) SYN"
      "flags_contains (flags seg) FIN" "on_ack E seg c0 = Some (True, c1)"
      "connection_state c1 \<noteq> ConnectionState.Closed" "connection_state c1 \<noteq> ConnectionState.Listen"
      "connection_state c1 \<noteq> SynSent" "on_fin E b c1 = Some c'"
      "\<not> flags_contains (flags seg) RST" "flags_contains (flags seg) ACK"
proof (cases "check_segment_seq_ok c seg")
  case False
  with H unacceptable show thesis by (simp add: on_segment_synchronized_def)
next
  case acc: True
  have st0: "\<not> quiet (connection_state c0)" "connection_state c0 \<noteq> SynSent" using st c0 by auto
  have live: "connection_state c0 \<noteq> ConnectionState.Closed" "connection_state c0 \<noteq> ConnectionState.Listen"
    using st0 by auto
  define b where "b = (if flags_contains (flags seg) ACK
    then is_non_ordered_ack (tx_buf c0) (ackn seg) else False)"
  note H0 = H [unfolded on_segment_synchronized_def c0 [symmetric] Let_def b_def [symmetric]]
  show thesis
  proof (cases "flags_contains (flags seg) RST \<or> flags_contains (flags seg) SYN")
    case True
    with H0 acc rst syn show thesis by (auto split: if_splits)
  next
    case False
    show thesis
    proof (cases "flags_contains (flags seg) ACK")
      case is_ack: True
      with H0 acc False obtain go_on c1 where a: "on_ack E seg c0 = Some (go_on, c1)"
        and r: "(if \<not> go_on then Some c1
          else if connection_state c1 = ConnectionState.Closed \<or>
             connection_state c1 = ConnectionState.Listen \<or> connection_state c1 = SynSent then Some c1
          else if flags_contains (flags seg) FIN
            then on_fin E b c1
          else Some c1) = Some c'"
        by (auto simp: bind_eq_Some_conv)
      show thesis
      proof (cases "go_on \<and> connection_state c1 \<noteq> ConnectionState.Closed \<and> flags_contains (flags seg) FIN \<and>
          connection_state c1 \<noteq> ConnectionState.Listen \<and> connection_state c1 \<noteq> SynSent")
        case True
        with a r False acc is_ack show thesis by (intro ack_fin) auto
      next
        case no: False
        with r have "c' = c1" by (auto split: if_splits)
        with a no False acc is_ack show thesis by (intro ack [of go_on]) auto
      qed
    next
      case no: False
      with H0 acc False st0 live drop fin show thesis by (auto split: if_splits)
    qed
  qed
qed

lemma on_segment_synchronized_ok:
  assumes H: "on_segment_synchronized E seg c = Some c'" and ok: "conn_ok False c"
    and st: "\<not> quiet (connection_state c)" "connection_state c \<noteq> SynSent"
    and room: "roomy c" and len: "seg_len seg < 2 ^ 32" and d: "not_stray E seg c"
  shows "conn_ok False c'"
proof -
  define c0 where "c0 = c\<lparr>tx_buf := (tx_buf c)\<lparr>tx_window := min (window seg) (congestion_window c)\<rparr>\<rparr>"
  have ok0: "conn_ok False c0" "connection_state c0 = connection_state c" "rx_buf c0 = rx_buf c"
    "roomy c0" using ok st room by (simp_all add: c0_def roomy_def)
  have d0: "not_stray E seg c0" using d by (simp add: c0_def)
  have not_fin: "state_rx (connection_state c) \<noteq> ChannelState.Closed"
    if acc: "check_segment_seq_ok c seg" and f: "flags_contains (flags seg) FIN"
  proof
    assume "state_rx (connection_state c) = ChannelState.Closed"
    then have "rx_fin (rx_buf c)"
      using ok st by (cases "connection_state c") (auto simp: conn_ok_def rx_ok_def state_rx_def)
    from accepted_not_fin [OF acc this len] f show False by (auto dest: seg_len_0D)
  qed
  have A: "conn_ok (go_on \<and> flags_contains (flags seg) FIN) c1 \<and>
      (if go_on then ack_state (connection_state c) (connection_state c1)
       else connection_state c1 = connection_state c \<or> ack_state (connection_state c) (connection_state c1))"
    if "check_segment_seq_ok c seg" "on_ack E seg c0 = Some (go_on, c1)" for go_on c1
    using on_ack_ok [OF that(2) ok0(1) _ _ ok0(4) _ d0] fits_accepted [OF ok that(1) len] st
    unfolding ok0(2,3) by blast
  from H c0_def st show ?thesis
  proof (cases rule: on_segment_synchronized_cases)
    case unacceptable
    with ok show ?thesis by (auto simp: on_unacceptable_def)
  next
    case (fin b)
    with on_fin_ok [OF fin(5) conn_ok_pending [OF ok0(1)]] not_fin st ok0 show ?thesis by auto
  next
    case (ack go_on)
    with A [OF ack(1,3)] st show ?thesis by (auto simp: quiet_conn_ok split: if_splits)
  next
    case (ack_fin c1 b)
    with A [OF ack_fin(1,4)] not_fin show ?thesis
      by (intro on_fin_after_ack [of c1 "connection_state c" E b]) auto
  qed (use ok0 in \<open>auto intro: on_rst_ok on_syn_ok\<close>)
qed

lemma on_segment_ok:
  assumes "on_segment E seg c = Some c'" and "conn_wf c" and "roomy c" and "seg_len seg < 2 ^ 32"
    and "not_stray E seg c"
  shows "conn_wf c'"
  using assms
  by (cases "connection_state c")
    (auto simp: on_segment_def intro: on_segment_closed_ok on_segment_listen_ok on_segment_syn_sent_ok
      on_segment_synchronized_ok)


lemma on_segment_established:
  "connection_state c = ConnectionState.Established t r cc ca \<Longrightarrow>
     on_segment E seg c = on_segment_synchronized E seg c"
  by (simp add: on_segment_def)

text \<open>What an acknowledgement of nothing new does before the data is stored.\<close>

lemma on_ack_nothing_new:
  assumes "connection_state c = ConnectionState.Established Open r cc ca"
    and "ackn seg = unack (tx_buf c)"
  shows "on_ack E seg c = store_segment E seg c"
  using assms by (simp add: on_ack_def on_ack_of_fin_def Let_def)

lemma on_segment_data:
  assumes "connection_state c = ConnectionState.Established t r cc ca"
    and "check_segment_seq_ok c seg" and "flags_contains (flags seg) ACK"
    and "\<not> flags_contains (flags seg) RST" and "\<not> flags_contains (flags seg) SYN"
  shows "on_segment E seg c =
    (let c0 = c\<lparr>tx_buf := (tx_buf c)\<lparr>tx_window := min (window seg) (congestion_window c)\<rparr>\<rparr>
     in do {
       (go_on, c1) \<leftarrow> on_ack E seg c0;
       if \<not> go_on then Some c1
       else if connection_state c1 = ConnectionState.Closed \<or>
          connection_state c1 = ConnectionState.Listen \<or> connection_state c1 = SynSent then Some c1
       else if flags_contains (flags seg) FIN
         then on_fin E (is_non_ordered_ack (tx_buf c0) (ackn seg)) c1 else Some c1
     })"
  using assms by (simp add: on_segment_established on_segment_synchronized_def Let_def cong: if_cong)


section \<open>The user's calls\<close>

lemma retry_after_frame:
  assumes "retry_after E w c = Some (r, c')"
  obtains k where "c' = c\<lparr>events := (events c)\<lparr>next_cookie := k,
      suspended := hash_insert (w, next_cookie (events c)) (suspended (events c))\<rparr>\<rparr>"
  using assms
  by (auto simp: retry_after_def return_retry_after_def bind_eq_Some_conv new_cookie_eq_Some Let_def)

lemma continue_after_frame:
  assumes "continue_after E w c = Some (r, c')"
  obtains k where "c' = c\<lparr>events := (events c)\<lparr>next_cookie := k,
      suspended := hash_insert (w, next_cookie (events c)) (suspended (events c))\<rparr>\<rparr>"
  using assms
  by (auto simp: continue_after_def return_continue_after_def bind_eq_Some_conv new_cookie_eq_Some Let_def)

lemma suspend_ok:
  assumes "conn_ok b c" and "is_Acknowledged w \<longrightarrow> \<not> quiet (connection_state c) \<and> connection_state c \<noteq> SynSent"
  shows "conn_ok b (c\<lparr>events := (events c)\<lparr>next_cookie := k,
      suspended := hash_insert (w, i) (suspended (events c))\<rparr>\<rparr>)"
  using assms
  by (auto simp: conn_ok_def waits_ok_def any_suspended_iff is_Acknowledged_def)

lemma retry_after_ok:
  "retry_after E w c = Some (r, c') \<Longrightarrow> conn_ok b c \<Longrightarrow> \<not> is_Acknowledged w \<Longrightarrow> conn_ok b c'"
  by (elim retry_after_frame) (simp add: suspend_ok)

lemma continue_after_ok:
  "continue_after E w c = Some (r, c') \<Longrightarrow> conn_ok b c \<Longrightarrow> \<not> is_Acknowledged w \<Longrightarrow> conn_ok b c'"
  by (elim continue_after_frame) (simp add: suspend_ok)

lemma is_Acknowledged_simps [simp]:
  "is_Acknowledged (Acknowledged q)" "\<not> is_Acknowledged WaitUntil.Established"
  "\<not> is_Acknowledged TxQueueEmpty" "\<not> is_Acknowledged TxClosed" "\<not> is_Acknowledged RxClosed"
  "\<not> is_Acknowledged BothClosed" "\<not> is_Acknowledged (Recv n)"
  by (simp_all add: is_Acknowledged_def)

lemma call_connect_ok:
  assumes H: "call_connect E c = Some (r, c')" and ok: "conn_wf c"
  shows "conn_wf c'"
proof (cases "connection_state c = ConnectionState.Closed \<or> connection_state c = Reset")
  case False
  with H ok show ?thesis by (simp add: call_connect_def)
next
  case True
  have d: "rx_buf c = RxBuffer_default" "tx_buf c = TxBuffer_default"
    "timers c = Timers_default" "timings c = Timings_default"
    "\<not> any_suspended is_Acknowledged (events c)"
    using ok True by (auto simp: quiet_conn_ok quiet_def)
  let ?c0 = "enter_state E SynSent c"
  have e: "events ?c0 = events c"
    by (simp add: enter_state_def out_clear_def established_triggers_def)
  let ?s = "new_seqn E (user_data ?c0)"
  have w: "curr_window RxBuffer_default = INITIAL_WINDOW_SIZE"
    by (simp add: word_unat_eq_iff unat_curr_window)
  let ?syn = "\<lparr>seqn = ?s, ackn = SeqN_ZERO, window = INITIAL_WINDOW_SIZE, flags = SYN, data = []\<rparr>"
  have len: "seg_len ?syn = 1" by (simp add: seg_len_def flag_simps)
  note F = first_segment [OF tx_default_simps(3), of ?syn ?s, OF _ len]
  obtain c1 where c1: "continue_after E WaitUntil.Established c1 = Some (r, c')"
    and "connection_state c1 = SynSent" "rx_buf c1 = RxBuffer_default" "timings c1 = Timings_default"
    "events c1 = events c" "tx_buf c1 = on_send ?syn (tx_init ?s TxBuffer_default)"
    "timer_re_tx (timers c1) \<noteq> None" "timer_timewait (timers c1) = None" "timer_usertime (timers c1) = None"
    using H True d e w
    by (auto simp: call_connect_def set_state_not_closing user_new_seqn_def Let_def SeqN_new_def)
  with F d have "conn_wf c1"
    by (auto simp: conn_ok_def rx_ok_def tx_ok_def timers_ok_def waits_ok_def window_bound_eq
        any_suspended_iff)
  with c1 show ?thesis by (auto intro: continue_after_ok)
qed

lemma write_tx_frame:
  assumes "write_tx bytes c = Some c'"
  obtains q where "c' = c\<lparr>tx_buf := (tx_buf c)\<lparr>tx_queue := q\<rparr>\<rparr>"
    and "contents q = tx_stream c @ bytes" and "fin q = tx_fin_marked c"
    and "bytes \<noteq> [] \<longrightarrow> \<not> fin q"
proof -
  from assms obtain q where q: "queue_write_bytes bytes (tx_queue (tx_buf c)) = Some q"
    and c': "c' = c\<lparr>tx_buf := (tx_buf c)\<lparr>tx_queue := q\<rparr>\<rparr>"
    by (auto simp: write_tx_def bind_eq_Some_conv)
  have "bytes \<noteq> [] \<longrightarrow> \<not> fin q"
    using q by (auto simp: queue_write_bytes_eq_Some split: if_splits)
  with c' queue_write_bytesD [OF q] that show thesis by blast
qed

text \<open>A call that queues data before the connection is open waits for its acknowledgement.\<close>

lemma queue_and_wait_ok:
  assumes W: "write_tx bytes c = Some c1" and n: "bytes \<noteq> []" "length bytes < 2 ^ 31 - 1"
    and H: "continue_after E (Acknowledged (wrapping_add (tx_next (tx_buf c1)) (as_u32 (length bytes)))) c1
      = Some (r, c')"
    and ok: "conn_wf c" and st: "handshaking (connection_state c)"
  shows "conn_wf c'"
proof -
  obtain q where c1: "c1 = c\<lparr>tx_buf := (tx_buf c)\<lparr>tx_queue := q\<rparr>\<rparr>"
    and q: "contents q = tx_stream c @ bytes" "fin q = tx_fin_marked c" "\<not> fin q"
    using W n by (auto elim: write_tx_frame)
  have "unat (as_u32 (length bytes)) = length bytes" using n by (simp add: unat_of_nat_u32)
  with H ok st q n show ?thesis
    by (elim continue_after_frame)
      (auto simp: c1 handshaking_def conn_ok_def tx_ok_def timers_ok_def waits_ok_def any_suspended_iff
        wrapping_add_def)
qed

lemma call_send_ok:
  assumes H: "call_send E bytes c = Some (r, c')" and ok: "conn_wf c" and room: "roomy c"
    and n: "length bytes < 2 ^ 31 - 1"
  shows "conn_wf c'"
proof -
  have ne: "bytes \<noteq> []" using H by (auto simp: call_send_def bind_assert_eq_Some)
  show ?thesis
  proof (cases "connection_state c")
    case (Established t rx cc ca)
    with H obtain c1 where W: "write_tx bytes c = Some c1"
      and C: "c' = c1 \<or> send_ack E c1 = Some c'"
      by (auto simp: call_send_def bind_eq_Some_conv panic_simps Let_def split: if_splits)
    obtain q where c1: "c1 = c\<lparr>tx_buf := (tx_buf c)\<lparr>tx_queue := q\<rparr>\<rparr>"
      and q: "fin q = tx_fin_marked c" "\<not> fin q"
      using W ne by (auto elim: write_tx_frame)
    have ok1: "conn_wf c1" using ok Established q
      by (auto simp: c1 conn_ok_def tx_ok_def timers_ok_established)
    moreover have "roomy c1" using room by (simp add: c1 roomy_def)
    moreover have "connection_state c1 = connection_state c" by (simp add: c1)
    ultimately obtain c2 where "send_ack E c1 = Some c2" "conn_wf c2"
      using Established by (auto intro: send_ack_ok [of False c1 E])
    with C ok1 show ?thesis by auto
  qed (use H ok ne n in \<open>auto simp: call_send_def Let_def bind_eq_Some_conv intro: queue_and_wait_ok\<close>)
qed

lemma call_recv_ok:
  assumes H: "call_recv E buf c = Some (r, out, c')" and ok: "conn_wf c"
  shows "conn_wf c'"
proof (cases "connection_state c")
  case (Established t rx cc ca)
  let ?n = "length buf"
  consider (same) "c' = c"
    | (suspend) w r' where "retry_after E w c = Some (r' :: Error + nat, c')" "\<not> is_Acknowledged w"
    | (read) bytes b where "rx = Open" "rx_read_bytes ?n (rx_buf c) = Some (bytes, b)"
      "?n \<le> length (rx_stream (rx_buf c))" "c' = c\<lparr>rx_buf := b\<rparr>"
    | (more) bytes b where "rx = Fin" "rx_read_bytes ?n (rx_buf c) = Some (bytes, b)"
      "\<not> length bytes < ?n" "c' = c\<lparr>rx_buf := b\<rparr>"
    | (last) bytes b where "rx = Fin" "rx_read_bytes ?n (rx_buf c) = Some (bytes, b)"
      "length bytes < ?n" "set_state E (ConnectionState.Established t ChannelState.Closed cc ca)
         (c\<lparr>rx_buf := b\<rparr>) = Some c'"
    using H Established
    by (auto simp: call_recv_def Let_def bind_eq_Some_conv panic_simps rx_available_stream
        split: ChannelState.splits if_splits dest!: le_imp_less_or_eq)
  then show ?thesis
  proof cases
    case (read bytes b)
    note R = rx_read_bytesD [OF read(2)]
    with read Established ok show ?thesis by (auto simp: conn_ok_def rx_ok_def)
  next
    case (more bytes b)
    note R = rx_read_bytesD [OF more(2)]
    with more Established ok show ?thesis by (auto simp: conn_ok_def rx_ok_def)
  next
    case (last bytes b)
    note R = rx_read_bytesD [OF last(2)]
    then have short: "length (rx_stream (rx_buf c)) < ?n" using last(3) by auto
    from last(4) show ?thesis
      by (rule set_state_established_ok)
        (use R short Established ok in
          \<open>auto simp: conn_ok_def rx_ok_def tx_ok_def timers_ok_established\<close>)
  qed (use ok in \<open>auto intro: retry_after_ok\<close>)
qed (use H ok in \<open>auto simp: call_recv_def Let_def bind_eq_Some_conv intro: retry_after_ok\<close>)


section \<open>Shutdown, close and abort\<close>

lemma mark_fin_and_send_spec:
  assumes can: "can_ack c"
  obtains c1 where "mark_fin_and_send E c = Some c1" and "evolves E c c1" and "rx_buf c1 = rx_buf c"
    and "connection_state c1 = (if length (tx_stream c) < ack_limit c \<and> state_tx (connection_state c) = Open
           then fin_state (connection_state c) else connection_state c)"
proof -
  let ?c0 = "c\<lparr>tx_buf := (tx_buf c)\<lparr>tx_queue := mark_fin (tx_queue (tx_buf c))\<rparr>\<rparr>"
  have can0: "can_ack ?c0" using can by (simp add: can_ack_def)
  have fin: "ack_fin ?c0 \<longleftrightarrow> length (tx_stream c) < ack_limit c \<and> state_tx (connection_state c) = Open"
    by (simp add: ack_fin_def ack_limit_def space_available_def)
  obtain c1 where S: "send_ack E ?c0 = Some c1" "rx_buf c1 = rx_buf ?c0"
    "connection_state c1 = (if ack_fin ?c0 then fin_state (connection_state ?c0) else connection_state ?c0)"
    by (rule send_ack_spec [OF can0, of E])
  have "evolves E c c1" by (rule evolves_send_ack [OF S(1)]) (auto intro: evolves_intros)
  with S show thesis by (intro that [of c1]) (simp_all add: mark_fin_and_send_def fin)
qed

lemma mark_fin_and_send_established:
  assumes H: "mark_fin_and_send E c = Some c'" and ok: "conn_wf c" and room: "roomy c"
    and st: "connection_state c = ConnectionState.Established t r cc ca"
  shows "conn_wf c' \<and> (\<exists>t' cc' ca'. connection_state c' = ConnectionState.Established t' r cc' ca')"
proof -
  let ?c0 = "c\<lparr>tx_buf := (tx_buf c)\<lparr>tx_queue := mark_fin (tx_queue (tx_buf c))\<rparr>\<rparr>"
  have "conn_wf ?c0" using ok st by (auto simp: conn_ok_def tx_ok_def timers_ok_established)
  then obtain c1 where "send_ack E ?c0 = Some c1" "conn_wf c1"
      "connection_state c1 = (if ack_fin ?c0 then fin_state (connection_state ?c0) else connection_state ?c0)"
    by (rule send_ack_ok [of False ?c0 E]) (use st room in \<open>simp_all add: roomy_def\<close>)
  with H st show ?thesis by (auto simp: mark_fin_and_send_def)
qed

lemma shutdown_syn_received_ok:
  assumes M: "mark_fin_and_send E c = Some c1" and ok: "conn_wf c" and room: "roomy c"
    and st: "connection_state c = SynReceived" and idle: "\<not> any_suspended is_Acknowledged (events c)"
    and S: "set_state E (ConnectionState.Established Fin Open cc ca) c1 = Some c'"
  shows "conn_wf c'"
proof -
  let ?c0 = "c\<lparr>tx_buf := (tx_buf c)\<lparr>tx_queue := mark_fin (tx_queue (tx_buf c))\<rparr>\<rparr>"
  have empty: "tx_stream c = []" using ok st idle by (auto simp: conn_ok_def waits_ok_def)
  have can: "can_ack ?c0" using st by (simp add: can_ack_def)
  have pre: "tx_wf (tx_buf ?c0)" "roomy ?c0"
    "re_tx (tx_buf ?c0) \<noteq> [] \<longrightarrow> timer_re_tx (timers ?c0) \<noteq> None"
    using ok st room by (auto simp: conn_ok_def tx_ok_def timers_ok_def roomy_def)
  obtain c2 where c2: "send_ack E ?c0 = Some c2" and W: "tx_wf (tx_buf c2)"
    "re_tx (tx_buf c2) \<noteq> [] \<longrightarrow> timer_re_tx (timers c2) \<noteq> None"
    "tx_stream c2 = drop (ack_limit ?c0) (tx_stream ?c0)" "tx_fin_marked c2 = tx_fin_marked ?c0"
    "rx_buf c2 = rx_buf ?c0" "timings c2 = timings ?c0"
    "timer_timewait (timers c2) = timer_timewait (timers ?c0)"
    "timer_usertime (timers c2) = timer_usertime (timers ?c0)"
    by (rule send_ack_keeps [OF can pre, of E])
  from M c2 have "c1 = c2" by (simp add: mark_fin_and_send_def)
  with S W empty ok st show ?thesis
    by (intro set_state_established_ok [OF S])
      (auto simp: conn_ok_def rx_ok_def tx_ok_def timers_ok_def)
qed

lemma call_shutdown_ok:
  assumes H: "call_shutdown E c = Some (r, c')" and ok: "conn_wf c" and room: "roomy c"
  shows "conn_wf c'"
proof (cases "connection_state c")
  case SynReceived
  with H ok room show ?thesis
    by (auto simp: call_shutdown_def bind_eq_Some_conv split: if_splits
        intro: retry_after_ok shutdown_syn_received_ok)
next
  case (Established t rx cc ca)
  consider (same) "c' = c"
    | (suspend) "retry_after E TxQueueEmpty c = Some (r, c')"
    | (fin) c1 where "mark_fin_and_send E c1 = Some c'"
      "(if rx = Open then set_state E (ConnectionState.Established t rx cc True) c else Some c) = Some c1"
      "t = Open"
    using H Established
    by (auto simp: call_shutdown_def bind_eq_Some_conv split: if_splits ChannelState.splits)
  then show ?thesis
  proof cases
    case fin
    have "conn_wf c1 \<and> roomy c1 \<and> (\<exists>t r cc ca. connection_state c1 = ConnectionState.Established t r cc ca)"
    proof (cases "rx = Open")
      case True
      with fin have S: "set_state E (ConnectionState.Established t rx cc True) c = Some c1" by simp
      have "conn_wf c1"
        by (rule set_state_established_ok [OF S])
          (use ok Established in \<open>auto simp: conn_ok_def rx_ok_def tx_ok_def timers_ok_established\<close>)
      moreover from S True have "c1 = enter_state E (ConnectionState.Established t rx cc True) c"
        by (simp add: set_state_not_closing split: if_splits)
      ultimately show ?thesis using room by (auto simp: roomy_def)
    qed (use fin ok room Established in simp)
    with fin(1) show ?thesis using mark_fin_and_send_established by blast
  qed (use ok in \<open>auto intro: retry_after_ok\<close>)
qed (use H ok in \<open>auto simp: call_shutdown_def clear_ok\<close>)

lemma close_established_ok:
  assumes H: "close_established E ca' c = Some (res, c')" and ok: "conn_wf c"
    and st: "connection_state c = ConnectionState.Established t r cc ca"
  shows "conn_wf c'"
proof -
  from H st obtain c1 where S: "set_state E (ConnectionState.Established t r True ca') c = Some c1"
    and C: "c' = c1 \<or> continue_after E BothClosed c1 = Some (res, c')"
    by (auto simp: close_established_def Let_def bind_eq_Some_conv split: if_splits)
  have "conn_wf c1"
    by (rule set_state_established_ok [OF S])
      (use ok st in \<open>auto simp: conn_ok_def rx_ok_def tx_ok_def timers_ok_established\<close>)
  with C show ?thesis by (auto intro: continue_after_ok)
qed

lemma call_close_ok:
  assumes H: "call_close E c = Some (r, c')" and ok: "conn_wf c" and room: "roomy c"
  shows "conn_wf c'"
proof (cases "connection_state c")
  case SynReceived
  with H ok room show ?thesis
    by (auto simp: call_close_def bind_eq_Some_conv split: if_splits
        intro: retry_after_ok continue_after_ok shutdown_syn_received_ok)
next
  case (Established t rx cc ca)
  consider (suspend) "retry_after E TxQueueEmpty c = Some (r, c')"
    | (fin) c1 ca' where "mark_fin_and_send E c = Some c1" "close_established E ca' c1 = Some (r, c')"
    | (closed) ca' where "close_established E ca' c = Some (r, c')"
    using H Established
    by (auto simp: call_close_def Let_def bind_eq_Some_conv split: if_splits)
  then show ?thesis
  proof cases
    case fin
    with mark_fin_and_send_established [OF fin(1) ok room Established] show ?thesis
      by (auto intro: close_established_ok)
  qed (use ok Established in \<open>auto intro: retry_after_ok close_established_ok\<close>)
qed (use H ok in \<open>auto simp: call_close_def clear_ok\<close>)

lemma call_abort_ok: "call_abort E c = (r, c') \<Longrightarrow> conn_wf c \<Longrightarrow> conn_wf c'"
  by (auto simp: call_abort_def Let_def clear_ok split: ConnectionState.splits)

section \<open>Timers\<close>

lemma on_timer_re_tx_ok:
  assumes H: "on_timer_re_tx E (c\<lparr>timers := (timers c)\<lparr>timer_re_tx := None\<rparr>\<rparr>) = Some c'"
    and ok: "conn_wf c" and e: "timer_re_tx (timers c) \<noteq> None"
  shows "conn_wf c' \<and> connection_state c' \<noteq> TimeWait"
proof -
  have st: "\<not> quiet (connection_state c)" "connection_state c \<noteq> TimeWait"
    using ok e by (auto simp: conn_ok_def timers_ok_def)
  let ?c0 = "c\<lparr>timers := (timers c)\<lparr>timer_re_tx := None\<rparr>\<rparr>"
  show ?thesis
  proof (cases "re_tx (tx_buf c)")
    case Nil
    with H st have "c' = ?c0"
      by (cases "connection_state c") (simp_all add: on_timer_re_tx_def)
    with Nil ok st show ?thesis by (simp add: conn_ok_def timers_ok_def)
  next
    case (Cons seg segs)
    with H st obtain b d where c': "c' = set_timer_re_tx E d (user_send seg (?c0\<lparr>exp_backoff := b\<rparr>))"
      by (cases "connection_state c") (auto simp: on_timer_re_tx_def Let_def bind_eq_Some_conv)
    with ok st show ?thesis by (simp add: conn_ok_def timers_ok_def)
  qed
qed

lemma on_time_tick_ok:
  assumes H: "on_time_tick E time c = Some c'" and ok: "conn_wf c"
  shows "conn_wf c'"
proof -
  from H obtain c1 c2 where
    c1: "(if expired (timer_re_tx (timers c)) time
       then on_timer_re_tx E (c\<lparr>timers := (timers c)\<lparr>timer_re_tx := None\<rparr>\<rparr>) else Some c) = Some c1"
    and c2: "(if expired (timer_timewait (timers c1)) time
       then on_timer_timewait E (c1\<lparr>timers := (timers c1)\<lparr>timer_timewait := None\<rparr>\<rparr>) else Some c1)
       = Some c2"
    and c': "c' = (if expired (timer_usertime (timers c2)) time
       then on_timer_usertime E (c2\<lparr>timers := (timers c2)\<lparr>timer_usertime := None\<rparr>\<rparr>) else c2)"
    by (auto simp: on_time_tick_def bind_eq_Some_conv)
  have "conn_wf c1"
    using c1 ok on_timer_re_tx_ok [of E c c1]
    by (auto simp: expired_def split: if_splits option.splits)
  then have "conn_wf c2"
    using c2 by (auto simp: on_timer_timewait_def bind_assert_eq_Some clear_ok split: if_splits)
  with c' show ?thesis by (auto simp: on_timer_usertime_def clear_ok)
qed


section \<open>The machine\<close>

text \<open>
  The steps the theorems are about: less than 2 GiB in flight, data shorter than that, and,
  in a release build only, not the last acknowledgement with sequence number 0
  (\<open>not_stray\<close>).
\<close>

definition sound_op :: "('a, 't) env \<Rightarrow> 't conn_op \<Rightarrow> ('a, 't) Connection \<Rightarrow> bool" where
  "sound_op E x c \<longleftrightarrow> roomy c \<and>
     (case x of
        DoSend bytes \<Rightarrow> length bytes < 2 ^ 31 - 1
      | Segment seg \<Rightarrow> seg_len seg < 2 ^ 32 \<and> not_stray E seg c
      | _ \<Rightarrow> True)"

lemma conn_step_ok:
  assumes H: "conn_step E x c = Some (r, c')" and ok: "conn_wf c" and s: "sound_op E x c"
  shows "conn_wf c'"
proof (cases x)
  case DoAbort
  with H ok show ?thesis by (cases "call_abort E c") (auto intro: call_abort_ok)
qed (use H ok s in \<open>auto simp: sound_op_def apfst_def intro: call_connect_ok call_send_ok call_recv_ok
      call_shutdown_ok call_close_ok on_segment_ok on_time_tick_ok\<close>)

text \<open>
  The connections a program can get: made by the user, or by accept, and then stepped, with
  the options changed at any time.
\<close>

inductive reachable :: "('a, 't::linorder) env \<Rightarrow> ('a, 't) Connection \<Rightarrow> bool" for E where
  made: "reachable E ((Connection_new a h)\<lparr>options := opt\<rparr>)"
| accepting: "set_state E ConnectionState.Listen ((Connection_new a h)\<lparr>options := opt\<rparr>) = Some c
    \<Longrightarrow> reachable E c"
| configured: "reachable E c \<Longrightarrow> reachable E (options_mut change c)"
| step: "reachable E c \<Longrightarrow> sound_op E x c \<Longrightarrow> conn_step E x c = Some (r, c') \<Longrightarrow> reachable E c'"

lemma Connection_new_simps [simp]:
  "connection_state (Connection_new a h) = ConnectionState.Closed"
  "rx_buf (Connection_new a h) = RxBuffer_default" "tx_buf (Connection_new a h) = TxBuffer_default"
  "timers (Connection_new a h) = Timers_default" "timings (Connection_new a h) = Timings_default"
  "events (Connection_new a h) = Events_new" "user_data (Connection_new a h) = h"
  "remote (Connection_new a h) = a" "exp_backoff (Connection_new a h) = 1"
  "suspended Events_new = []"
  by (simp_all add: Connection_new_def Events_new_def)

lemma reachable_wf: "reachable E c \<Longrightarrow> conn_wf c"
proof (induction rule: reachable.induct)
  case (accepting a h opt c)
  then show ?case
    by (auto simp: set_state_not_closing quiet_conn_ok enter_state_def out_clear_def
        established_triggers_def any_suspended_def)
next
  case (step c x r c')
  show ?case using step(3,4,2) by (rule conn_step_ok)
next
  case (configured c change)
  then show ?case by (simp add: options_mut_def conn_ok_def)
qed (simp add: quiet_conn_ok any_suspended_def)

end
