(* ===== verification/Tcp_Panic.thy ===== *)
theory Tcp_Panic
  imports Tcp_Preserve
begin

text \<open>
  When the operations of a well-formed connection panic. \<open>defect\<close> lists the inputs on which
  the segment handler does; the timers never do.
\<close>

section \<open>Panics of the stages\<close>

lemma window_update_None:
  assumes "window_update dbg seg c = None"
  shows "dbg \<and> SLOW_START_TRESHOLD < congestion_window c \<and>
    2 ^ 16 \<le> unat (congestion_window c) + unat (as_u16 (length (data seg)))"
proof -
  have "\<not> 2 ^ 16 \<le> unat (congestion_window c) * unat (2 :: u16)"
    if "congestion_window c \<le> SLOW_START_TRESHOLD"
    using that by (simp add: SLOW_START_TRESHOLD_def word_le_nat_alt)
  with assms show ?thesis
    by (auto simp: window_update_def Let_def ovf_mul_def ovf_add_def split: if_splits)
qed

definition cw_overflows :: "SegmentMeta \<Rightarrow> ('a, 't) Connection \<Rightarrow> bool" where
  "cw_overflows seg c \<longleftrightarrow> SLOW_START_TRESHOLD < congestion_window c \<and>
    2 ^ 16 \<le> unat (congestion_window c) + unat (as_u16 (length (data seg)))"

lemma on_new_ack_None: "on_new_ack E seg c = None \<Longrightarrow> debug_assertions E \<and> cw_overflows seg c"
  using window_update_None [of "debug_assertions E" seg c]
  by (cases "window_update (debug_assertions E) seg c")
    (auto simp: on_new_ack_def cw_overflows_def Let_def)

lemma on_ack_of_fin_total:
  assumes ok: "conn_ok b c" and u: "unack (tx_buf c) = ackn seg"
  shows "on_ack_of_fin E seg c \<noteq> None"
proof
  assume N: "on_ack_of_fin E seg c = None"
  then obtain r cc ca where st: "connection_state c = ConnectionState.Established Fin r cc ca"
    and a: "ackn seg = tx_next (tx_buf c)"
    by (auto simp: on_ack_of_fin_def split: ConnectionState.splits if_splits)
  have "re_tx (tx_buf c) = []"
    using ok u a by (intro tx_wf_all_acked) (simp_all add: conn_ok_def tx_ok_def)
  moreover have "queue_is_empty (tx_queue (tx_buf c))"
    using ok st by (simp add: is_empty_contents conn_ok_def tx_ok_def)
  moreover have "debug_validate_transition (debug_assertions E) (connection_state c)
      (ConnectionState.Established ChannelState.Closed r cc ca) \<noteq> None"
    using validate_Established_iff [of Fin r cc ca ChannelState.Closed r cc ca] st
    by (cases "debug_assertions E") simp_all
  ultimately show False
    using N st a
    by (cases "closing (ConnectionState.Established ChannelState.Closed r cc ca)")
      (auto simp: on_ack_of_fin_def set_state_closing set_state_not_closing split: if_splits)
qed

lemma rx_write_None:
  assumes "rx_write dbg seg rx = None" and "fits seg rx" and "seqn seg = ackd rx"
  shows "data seg \<noteq> [] \<and> flags_contains (flags seg) FIN"
  using assms seg_len_0D [of seg]
  by (auto simp: rx_write_cases fits_def split: if_splits)

lemma send_ack_defined:
  assumes "conn_ok b c" and "\<not> quiet (connection_state c)" "\<not> handshaking (connection_state c)"
  shows "send_ack E c \<noteq> None"
proof -
  obtain c' q where "send_ack E c = Some c'"
    by (rule send_ack_spec [OF conn_ok_can_ack [OF assms], of E])
  then show ?thesis by simp
qed

lemma store_segment_None:
  assumes N: "store_segment E seg c = None" and ok: "conn_ok False c"
    and st: "connection_state c = ConnectionState.Closed \<or>
      \<not> quiet (connection_state c) \<and> \<not> handshaking (connection_state c) \<and> fits seg (rx_buf c)"
  shows "data seg \<noteq> [] \<and> flags_contains (flags seg) FIN \<or>
    connection_state c = ConnectionState.Closed \<and> seqn seg = 0"
proof -
  have s: "seqn seg = ackd (rx_buf c)"
    using N by (auto simp: store_segment_def split: if_splits)
  show ?thesis
  proof (cases "connection_state c = ConnectionState.Closed")
    case True
    with ok s show ?thesis by (simp add: quiet_conn_ok)
  next
    case False
    with st have st': "\<not> quiet (connection_state c)" "\<not> handshaking (connection_state c)"
      "fits seg (rx_buf c)" by simp_all
    show ?thesis
    proof (cases "rx_write (debug_assertions E) seg (rx_buf c)")
      case None
      with st' s show ?thesis by (blast dest: rx_write_None)
    next
      case (Some rx')
      have "conn_ok (flags_contains (flags seg) FIN) (c\<lparr>rx_buf := rx'\<rparr>)"
        using rx_write_ok [OF Some _ st' s] ok by (simp add: conn_ok_def)
      with st' have "send_ack E (c\<lparr>rx_buf := rx'\<rparr>) \<noteq> None" by (intro send_ack_defined) simp_all
      with N s Some show ?thesis by (auto simp: store_segment_def)
    qed
  qed
qed

lemma on_fin_release: "on_fin E non_ordered c = None \<Longrightarrow> debug_assertions E"
  by (rule ccontr)
    (auto simp: on_fin_def Let_def set_state_not_closing split: ConnectionState.splits
      ChannelState.splits if_splits)

lemma on_fin_None:
  assumes N: "on_fin E non_ordered c = None"
    and r: "state_rx (connection_state c) \<noteq> ChannelState.Closed \<or> connection_state c = TimeWait"
  shows "debug_assertions E \<and> (\<exists>r ca. connection_state c = ConnectionState.Established Open r True ca)"
proof (cases "connection_state c")
  case (Established t r cc ca)
  from N Established assms(2) have "set_state E (ConnectionState.Established t Fin cc ca)
      (trigger_event E is_Recv (Ok ()) c) = None"
    by (cases r) (simp_all add: on_fin_def)
  then have "debug_validate_transition (debug_assertions E) (connection_state c)
      (ConnectionState.Established t Fin cc ca) = None"
    by (simp add: set_state_not_closing split: if_splits)
  with Established r validate_Established_iff [of t r cc ca t Fin cc ca] show ?thesis
    by (cases "debug_assertions E"; cases r) (auto simp: Fin_le_iff)
qed (use N in \<open>auto simp: on_fin_def Let_def set_state_not_closing split: if_splits\<close>)


section \<open>Panics of the handler\<close>

lemma on_ack_None:
  assumes N: "on_ack E seg c = None" and ok: "conn_ok False c"
    and st: "\<not> quiet (connection_state c)" "connection_state c \<noteq> SynSent"
    and room: "roomy c" and f: "fits seg (rx_buf c)"
  shows "debug_assertions E \<and> cw_overflows seg c \<or>
    data seg \<noteq> [] \<and> flags_contains (flags seg) FIN \<or> last_ack seg c \<and> seqn seg = 0"
proof -
  have a: "in_range_inclusive (ackn seg) (unack (tx_buf c)) (tx_next (tx_buf c))"
    using N by (rule contrapos_pp) (simp add: on_ack_def)
  define c1 where
    "c1 = (if connection_state c = SynReceived then enter_state E FULLY_OPEN c else c)"
  note C = open_stage [OF c1_def ok st]
  have "(if connection_state c = SynReceived \<and>
      in_range_inclusive (ackn seg) (unack (tx_buf c)) (tx_next (tx_buf c))
      then set_state E FULLY_OPEN c else Some c) = Some c1"
    using a by (simp add: set_state_not_closing FULLY_OPEN_def c1_def)
  with N a C have N1: "Option.bind
      (if unack (tx_buf c1) \<noteq> ackn seg then on_new_ack E seg c1 else Some c1)
      (\<lambda>c. Option.bind (on_ack_of_fin E seg c) (store_segment E seg)) = None"
    by (simp add: on_ack_def Let_def)
  show ?thesis
  proof (cases "if unack (tx_buf c1) \<noteq> ackn seg then on_new_ack E seg c1 else Some c1")
    case None
    then show ?thesis using on_new_ack_None [of E seg c1] C by (auto simp: cw_overflows_def split: if_splits)
  next
    case (Some c2)
    have "roomy c1" using room C by (simp add: roomy_def)
    with acked_stage [OF Some] C a
    have c2: "conn_ok False c2" "connection_state c2 = connection_state c1" "rx_buf c2 = rx_buf c"
      "unack (tx_buf c2) = ackn seg" "tx_next (tx_buf c2) = tx_next (tx_buf c)" "roomy c2"
      by simp_all
    from on_ack_of_fin_total [OF c2(1,4), of E] obtain c3 where c3: "on_ack_of_fin E seg c2 = Some c3"
      by auto
    note F = on_ack_of_fin_fits [OF c3 c2(1,4) _ _ c2(6), of "connection_state c"]
      and L = on_ack_of_fin_ok [OF c3 c2(1,4)]
    have "store_segment E seg c3 = None" using N1 Some c3 by simp
    with F C c2 f have "data seg \<noteq> [] \<and> flags_contains (flags seg) FIN \<or>
        connection_state c3 = ConnectionState.Closed \<and> seqn seg = 0"
      by (intro store_segment_None [of E]) auto
    moreover have "last_ack seg c" if "connection_state c3 = ConnectionState.Closed"
    proof -
      have "last_ack seg c2" using L that C c2(2) by (auto simp: quiet_def)
      then show ?thesis using c2 by (auto simp: last_ack_def c1_def FULLY_OPEN_def split: if_splits)
    qed
    ultimately show ?thesis by blast
  qed
qed

lemma on_syn_total: "on_syn E c \<noteq> None"
  by (simp add: on_syn_def Let_def set_state_not_closing)

lemma on_rst_None:
  "on_rst E c = None \<Longrightarrow> connection_state c \<noteq> SynReceived \<and> (\<nexists>t r cc ca. connection_state c = ConnectionState.Established t r cc ca)"
  by (auto simp: on_rst_def set_state_not_closing split: ConnectionState.splits)

lemma on_segment_synchronized_None:
  assumes N: "on_segment_synchronized E seg c = None" and ok: "conn_ok False c"
    and st: "\<not> quiet (connection_state c)" "connection_state c \<noteq> SynSent"
    and room: "roomy c" and len: "seg_len seg < 2 ^ 32"
  shows "check_segment_seq_ok c seg \<and>
    (flags_contains (flags seg) RST \<and> connection_state c = TimeWait \<or>
     flags_contains (flags seg) FIN \<and> data seg \<noteq> [] \<and> flags_contains (flags seg) ACK \<or>
     flags_contains (flags seg) ACK \<and> debug_assertions E \<and> cw_overflows seg c \<or>
     flags_contains (flags seg) ACK \<and> last_ack seg c \<and> seqn seg = 0 \<or>
     flags_contains (flags seg) FIN \<and> debug_assertions E \<and>
       (\<exists>r ca. connection_state c = ConnectionState.Established Open r True ca))"
proof -
  have acc: "check_segment_seq_ok c seg"
    using N by (rule contrapos_pp) (simp add: on_segment_synchronized_def)
  define w where "w = min (window seg) (congestion_window c)"
  define c0 where "c0 = c\<lparr>tx_buf := (tx_buf c)\<lparr>tx_window := w\<rparr>\<rparr>"
  have ok0: "conn_ok False c0" "connection_state c0 = connection_state c" "rx_buf c0 = rx_buf c"
    "roomy c0" "tx_next (tx_buf c0) = tx_next (tx_buf c)" "congestion_window c0 = congestion_window c"
    using ok st room by (simp_all add: c0_def roomy_def)
  have w: "rx_window (rx_buf c) = INITIAL_WINDOW_SIZE" using ok by (simp add: conn_ok_def rx_ok_def)
  have f: "fits seg (rx_buf c0)"
    using accepted_in_order [OF acc w _ len] ok0(3) by (auto simp: fits_def)
  have not_fin: "state_rx (connection_state c) \<noteq> ChannelState.Closed"
    if "flags_contains (flags seg) FIN"
  proof
    assume "state_rx (connection_state c) = ChannelState.Closed"
    then have "rx_fin (rx_buf c)"
      using ok st by (cases "connection_state c") (auto simp: conn_ok_def rx_ok_def state_rx_def)
    from accepted_not_fin [OF acc this len] that show False by (auto dest: seg_len_0D)
  qed
  consider (rst) "flags_contains (flags seg) RST" "on_rst E c0 = None"
    | (no_ack) non where "flags_contains (flags seg) FIN" "on_fin E non c0 = None"
    | (ack) "flags_contains (flags seg) ACK" "on_ack E seg c0 = None"
    | (fin) c1 non where "on_ack E seg c0 = Some (True, c1)" "flags_contains (flags seg) FIN"
      "on_fin E non c1 = None" "connection_state c1 \<noteq> ConnectionState.Closed"
    using N acc st ok0(2) on_syn_total [of E c0]
    unfolding on_segment_synchronized_def w_def [symmetric] c0_def [symmetric]
    by (cases "on_ack E seg c0") (auto simp: Let_def split: if_splits)
  then show ?thesis
  proof cases
    case rst
    with on_rst_None [OF rst(2)] acc ok0(2) st show ?thesis
      by (cases "connection_state c") auto
  next
    case no_ack
    with on_fin_None [OF no_ack(2)] not_fin acc ok0(2) show ?thesis by auto
  next
    case ack
    with on_ack_None [OF ack(2) ok0(1) _ _ ok0(4) f] acc ok0 st show ?thesis
      by (auto simp: cw_overflows_def last_ack_def)
  next
    case (fin c1 non)
    have d: "debug_assertions E" using on_fin_release fin(3) by blast
    have A: "conn_ok True c1" "ack_state (connection_state c) (connection_state c1)"
      using on_ack_ok [OF fin(1) ok0(1) _ _ ok0(4) f] d st ok0(2) fin(2) by (simp_all add: not_stray_def)
    have r: "state_rx (connection_state c1) \<noteq> ChannelState.Closed \<or> connection_state c1 = TimeWait"
      using A(2) fin(4) not_fin [OF fin(2)] by (cases "connection_state c1") simp_all
    from on_fin_None [OF fin(3) r] obtain r ca
      where e: "connection_state c1 = ConnectionState.Established Open r True ca" by blast
    have "\<exists>r ca. connection_state c = ConnectionState.Established Open r True ca"
      using A(2) st unfolding e by (cases "connection_state c") (simp_all add: close_flags_def)
    with d acc fin(2) show ?thesis by blast
  qed
qed


lemma on_segment_syn_sent_total:
  assumes ok: "conn_ok b c" and st: "connection_state c = SynSent"
  shows "on_segment_syn_sent E seg c \<noteq> None"
proof
  assume N: "on_segment_syn_sent E seg c = None"
  let ?tx = "tx_buf c" and ?a = "ackn seg"
  let ?c0 = "clear_re_tx_range E ?a (c\<lparr>rx_buf := rx_init (seqn seg) (rx_buf c)\<rparr>)"
  let ?c1 = "enter_state E FULLY_OPEN
      (?c0\<lparr>tx_buf := (tx_buf ?c0)\<lparr>unack := ?a, tx_window := window seg\<rparr>\<rparr>)"
  have "set_state E FULLY_OPEN (?c0\<lparr>tx_buf := (tx_buf ?c0)\<lparr>unack := ?a, tx_window := window seg\<rparr>\<rparr>)
      = Some ?c1"
    using st by (simp add: set_state_not_closing FULLY_OPEN_def)
  with N have "send_ack E ?c1 = None"
    by (auto simp: on_segment_syn_sent_def Let_def split: if_splits)
  moreover have "can_ack ?c1" by (simp add: can_ack_def FULLY_OPEN_def)
  then have "send_ack E ?c1 \<noteq> None" by (elim send_ack_spec [of _ E]) simp
  ultimately show False by simp
qed

definition defect :: "('a, 't) env \<Rightarrow> SegmentMeta \<Rightarrow> ('a, 't) Connection \<Rightarrow> bool" where
  "defect E seg c \<longleftrightarrow>
     connection_state c = ConnectionState.Listen \<and> flags_contains (flags seg) SYN \<and> data seg \<noteq> [] \<or>
     connection_state c = TimeWait \<and> flags_contains (flags seg) RST \<or>
     flags_contains (flags seg) FIN \<and> flags_contains (flags seg) ACK \<and> data seg \<noteq> [] \<or>
     flags_contains (flags seg) ACK \<and> last_ack seg c \<and> seqn seg = 0 \<or>
     debug_assertions E \<and> flags_contains (flags seg) ACK \<and> cw_overflows seg c \<or>
     debug_assertions E \<and> flags_contains (flags seg) FIN \<and>
       (\<exists>r ca. connection_state c = ConnectionState.Established Open r True ca)"

lemma on_segment_None:
  assumes N: "on_segment E seg c = None" and ok: "conn_wf c" and room: "roomy c"
    and len: "seg_len seg < 2 ^ 32"
  shows "defect E seg c"
proof -
  have d: "length (data seg) < 2 ^ 32" using len length_data_le [of seg] by simp
  show ?thesis
  proof (cases "connection_state c")
    case Listen
    with N show ?thesis
      by (auto simp: on_segment_def on_segment_listen_def user_new_seqn_def Let_def
          set_state_not_closing bind_assert_eq_Some rust_assert_def defect_def split: if_splits)
  next
    case SynSent
    with N on_segment_syn_sent_total [OF ok] show ?thesis by (simp add: on_segment_def)
  next
    case Reset
    with N d show ?thesis
      by (auto simp: on_segment_def on_segment_closed_def response_to_closed_def split: if_splits)
  next
    case Closed
    with N d show ?thesis
      by (auto simp: on_segment_def on_segment_closed_def response_to_closed_def split: if_splits)
  qed (use N on_segment_synchronized_None [OF _ ok _ _ room len, of E] in
    \<open>auto simp: on_segment_def defect_def\<close>)
qed

section \<open>Timers\<close>

lemma on_time_tick_total:
  assumes ok: "conn_wf c" and b: "unat (exp_backoff c) < 2 ^ 62"
  shows "on_time_tick E time c \<noteq> None"
proof -
  have s: "on_timer_re_tx E (c\<lparr>timers := (timers c)\<lparr>timer_re_tx := None\<rparr>\<rparr>) \<noteq> None"
    if e: "timer_re_tx (timers c) \<noteq> None"
  proof -
    have st: "connection_state c \<noteq> TimeWait" "connection_state c \<noteq> ConnectionState.Closed"
      and t: "timings c = Timings_default"
      using ok e by (auto simp: conn_ok_def timers_ok_def)
    have m: "ovf_mul (debug_assertions E) (exp_backoff c) 2 = Some (exp_backoff c * 2)"
      using b by (simp add: ovf_mul_def)
    have "unat (exp_backoff c * 2) = unat (exp_backoff c) * 2"
      using b by (simp add: unat_word_ariths)
    with b have "duration_add (rto Timings_default) (from_secs (unat (exp_backoff c * 2))) \<noteq> None"
      by (simp add: duration_add_def Timings_default_def)
    with st t m show ?thesis
      by (cases "connection_state c"; cases "re_tx (tx_buf c)") (auto simp: on_timer_re_tx_def)
  qed
  obtain c1 where c1: "(if expired (timer_re_tx (timers c)) time
       then on_timer_re_tx E (c\<lparr>timers := (timers c)\<lparr>timer_re_tx := None\<rparr>\<rparr>) else Some c) = Some c1"
    using s by (cases "expired (timer_re_tx (timers c)) time")
      (auto simp: expired_def split: option.splits)
  have "conn_wf c1"
    using c1 ok on_timer_re_tx_ok [of E c c1]
    by (auto simp: expired_def split: if_splits option.splits)
  then have "connection_state c1 = TimeWait" if "expired (timer_timewait (timers c1)) time"
    using that by (auto simp: conn_ok_def timers_ok_def expired_def)
  then show ?thesis
    by (simp add: on_time_tick_def c1 on_timer_timewait_def)
qed

end
