(* ===== verification/Tcp_Run.thy ===== *)
theory Tcp_Run
  imports Tcp_Panic
begin

text \<open>
  A sample run, evaluated in the logic: a connection is opened against a peer whose sequence
  numbers wrap, closed by both sides, drained by a read and left in TIME-WAIT. Its states are
  the concrete inputs of the witnesses of the other theories.
\<close>

section \<open>Evaluation\<close>

text \<open>The definitions that unfold when an operation is evaluated on a concrete connection.\<close>

lemmas exec_defs = Connection_new_def TxBuffer_default_def RxBuffer_default_def Timers_default_def Timings_default_def
  SocketOptions_default_def Events_new_def BlobQueue_new_def SeqN_ZERO_def SeqN_new_def raw_def
  INITIAL_WINDOW_SIZE_def MAX_SEGMENT_SIZE_def MAX_SEGMENT_LIFETIME_def SLOW_START_TRESHOLD_def
  Cookie_ZERO_def call_connect_def user_new_seqn_def user_send_def tx_init_def rx_init_def
  wrapping_add_def wrapping_sub_def on_send_def curr_window_def rx_available_bytes_def
  queue_available_bytes_def set_timer_re_tx_def set_timer_timewait_def continue_after_def
  retry_after_def return_continue_after_def return_retry_after_def new_cookie_def cookie_next_def
  ovf_add_def ovf_mul_def hash_insert_def seq_size_def enter_state_def established_triggers_def
  trigger_event_def drain_filter_def out_clear_def set_state_not_closing closing_def FULLY_OPEN_def
  on_segment_def on_segment_syn_sent_def clear_re_tx_range_def acknowledged_by_def send_ack_def
  send_ack_take_def send_ack_flags_def send_ack_emit_def space_available_def queue_read_bytes_def
  seqn_after_def seqn_lte_unat seqn_lt_unat in_range_inclusive_def any_suspended_def
  is_Acknowledged_def no_value_def flag_simps Let_def apfst_def

lemmas call_defs = call_close_def close_established_def mark_fin_and_send_def mark_fin_def call_recv_def
  on_segment_synchronized_def check_segment_seq_ok_def in_window_def on_ack_def is_non_ordered_ack_def
  on_new_ack_def window_update_def readable_def clear_re_tx_loop.simps on_ack_of_fin_def store_segment_def rx_write_def
  queue_write_bytes_def on_fin_def is_Recv_def rx_read_bytes_def set_state_closing timers_clear_def queue_is_empty_def
  state_tx_def state_rx_def state_close_called_def state_close_active_def debug_validate_transition_def Fin_le_iff Closed_le_iff

lemmas run_defs = exec_defs call_defs

section \<open>The states\<close>

definition demo_syn_sent :: "(nat, nat) Connection" where
  "demo_syn_sent = \<lparr>remote = 9, connection_state = SynSent, dup_ack_count = 0,
     congestion_window = 4096,
     tx_buf = \<lparr>tx_queue = \<lparr>buffer = [], fin = False\<rparr>,
       re_tx = [\<lparr>seqn = 1000, ackn = 0, window = 4096, flags = SYN, data = []\<rparr>],
       unack = 1000, tx_next = 1001, tx_init_seqn = 1000, tx_window = 0,
       last_sent = Some (1000, 0, 4096)\<rparr>,
     rx_buf = RxBuffer_default, timings = Timings_default, exp_backoff = 1,
     timers = \<lparr>timer_re_tx = Some 1000000002, timer_timewait = None, timer_usertime = None\<rparr>,
     events = \<lparr>suspended = [(WaitUntil.Established, 0)], next_cookie = 1\<rparr>,
     options = SocketOptions_default,
     user_data = [NewSeqn 1000,
       Send 9 \<lparr>seqn = 1000, ackn = 0, window = 4096, flags = SYN, data = []\<rparr>,
       AddTimeout 1000000002]\<rparr>"

definition demo_syn_ack :: SegmentMeta where
  "demo_syn_ack = \<lparr>seqn = 0xFFFFFFFE, ackn = 1001, window = 4096, flags = flags_or SYN ACK, data = []\<rparr>"

abbreviation demo_log :: "(nat, nat) history" where
  "demo_log \<equiv> [NewSeqn 1000,
     Send 9 \<lparr>seqn = 1000, ackn = 0, window = 4096, flags = SYN, data = []\<rparr>,
     AddTimeout 1000000002, Event 0 (Ok ()),
     Send 9 \<lparr>seqn = 1001, ackn = 0xFFFFFFFF, window = 4096, flags = ACK, data = []\<rparr>]"

definition demo_established :: "(nat, nat) Connection" where
  "demo_established = \<lparr>remote = 9, connection_state = FULLY_OPEN, dup_ack_count = 0,
     congestion_window = 4096,
     tx_buf = \<lparr>tx_queue = \<lparr>buffer = [], fin = False\<rparr>, re_tx = [],
       unack = 1001, tx_next = 1001, tx_init_seqn = 1000, tx_window = 4096,
       last_sent = Some (1001, 0xFFFFFFFF, 4096)\<rparr>,
     rx_buf = \<lparr>rx_buffer = \<lparr>buffer = [], fin = False\<rparr>, ackd = 0xFFFFFFFF,
       rx_done = False, rx_window = 4096, rx_init_seqn = 0xFFFFFFFE\<rparr>,
     timings = Timings_default, exp_backoff = 1,
     timers = \<lparr>timer_re_tx = Some 1000000002, timer_timewait = None, timer_usertime = None\<rparr>,
     events = \<lparr>suspended = [], next_cookie = 1\<rparr>,
     options = SocketOptions_default,
     user_data = demo_log\<rparr>"

definition demo_closing :: "(nat, nat) Connection" where
  "demo_closing = \<lparr>remote = 9, connection_state = ConnectionState.Established Fin Open True True,
     dup_ack_count = 0, congestion_window = 4096,
     tx_buf = \<lparr>tx_queue = \<lparr>buffer = [], fin = True\<rparr>,
       re_tx = [\<lparr>seqn = 1001, ackn = 0xFFFFFFFF, window = 4096, flags = flags_or FIN ACK, data = []\<rparr>],
       unack = 1001, tx_next = 1002, tx_init_seqn = 1000, tx_window = 4096,
       last_sent = Some (1001, 0xFFFFFFFF, 4096)\<rparr>,
     rx_buf = \<lparr>rx_buffer = \<lparr>buffer = [], fin = False\<rparr>, ackd = 0xFFFFFFFF,
       rx_done = False, rx_window = 4096, rx_init_seqn = 0xFFFFFFFE\<rparr>,
     timings = Timings_default, exp_backoff = 1,
     timers = \<lparr>timer_re_tx = Some 1000000006, timer_timewait = None, timer_usertime = None\<rparr>,
     events = \<lparr>suspended = [(BothClosed, 1)], next_cookie = 2\<rparr>,
     options = SocketOptions_default,
     user_data = demo_log @
       [Send 9 \<lparr>seqn = 1001, ackn = 0xFFFFFFFF, window = 4096, flags = flags_or FIN ACK, data = []\<rparr>,
        AddTimeout 1000000006]\<rparr>"

text \<open>The peer acknowledges our FIN and sends its own.\<close>

definition demo_fin_ack :: SegmentMeta where
  "demo_fin_ack = \<lparr>seqn = 0xFFFFFFFF, ackn = 1002, window = 4096, flags = flags_or FIN ACK,
     data = []\<rparr>"

definition demo_closed_both :: "(nat, nat) Connection" where
  "demo_closed_both = \<lparr>remote = 9,
     connection_state = ConnectionState.Established ChannelState.Closed Fin True True,
     dup_ack_count = 0, congestion_window = 4096,
     tx_buf = \<lparr>tx_queue = \<lparr>buffer = [], fin = True\<rparr>, re_tx = [],
       unack = 1002, tx_next = 1002, tx_init_seqn = 1000, tx_window = 4096,
       last_sent = Some (1002, 0, 0)\<rparr>,
     rx_buf = \<lparr>rx_buffer = \<lparr>buffer = [], fin = True\<rparr>, ackd = 0,
       rx_done = False, rx_window = 4096, rx_init_seqn = 0xFFFFFFFE\<rparr>,
     timings = Timings_default, exp_backoff = 1, timers = Timers_default,
     events = \<lparr>suspended = [(BothClosed, 1)], next_cookie = 2\<rparr>,
     options = SocketOptions_default,
     user_data = demo_log @
       [Send 9 \<lparr>seqn = 1001, ackn = 0xFFFFFFFF, window = 4096, flags = flags_or FIN ACK, data = []\<rparr>,
        AddTimeout 1000000006,
        Send 9 \<lparr>seqn = 1002, ackn = 0, window = 0, flags = ACK, data = []\<rparr>]\<rparr>"

definition demo_time_wait :: "(nat, nat) Connection" where
  "demo_time_wait = \<lparr>remote = 9, connection_state = TimeWait,
     dup_ack_count = 0, congestion_window = 4096,
     tx_buf = \<lparr>tx_queue = \<lparr>buffer = [], fin = True\<rparr>, re_tx = [],
       unack = 1002, tx_next = 1002, tx_init_seqn = 1000, tx_window = 4096,
       last_sent = Some (1002, 0, 0)\<rparr>,
     rx_buf = \<lparr>rx_buffer = \<lparr>buffer = [], fin = True\<rparr>, ackd = 0,
       rx_done = True, rx_window = 4096, rx_init_seqn = 0xFFFFFFFE\<rparr>,
     timings = Timings_default, exp_backoff = 1,
     timers = \<lparr>timer_re_tx = None, timer_timewait = Some 240000000009, timer_usertime = None\<rparr>,
     events = \<lparr>suspended = [], next_cookie = 2\<rparr>,
     options = SocketOptions_default,
     user_data = demo_log @
       [Send 9 \<lparr>seqn = 1001, ackn = 0xFFFFFFFF, window = 4096, flags = flags_or FIN ACK, data = []\<rparr>,
        AddTimeout 1000000006,
        Send 9 \<lparr>seqn = 1002, ackn = 0, window = 0, flags = ACK, data = []\<rparr>,
        Event 1 (Ok ()), AddTimeout 240000000009]\<rparr>"

section \<open>The steps\<close>

lemma demo_connect:
  "conn_step (demo_env True) DoConnect (Connection_new 9 []) = Some (Err (ContinueAfter 0), demo_syn_sent)"
  by (simp add: demo_syn_sent_def run_defs del: Connection_new_simps)

lemma demo_opened:
  "conn_step (demo_env True) (Segment demo_syn_ack) demo_syn_sent = Some (Ok 0, demo_established)"
  by (simp add: demo_syn_sent_def demo_syn_ack_def demo_established_def run_defs)

lemma demo_close:
  "conn_step (demo_env True) DoClose demo_established = Some (Err (ContinueAfter 1), demo_closing)"
  by (simp add: demo_established_def demo_closing_def run_defs)

lemma demo_fins:
  "conn_step (demo_env True) (Segment demo_fin_ack) demo_closing = Some (Ok 0, demo_closed_both)"
  by (simp add: demo_closing_def demo_closed_both_def demo_fin_ack_def run_defs)

lemma demo_drain:
  "conn_step (demo_env True) (DoRecv [0]) demo_closed_both = Some (Ok 0, demo_time_wait)"
  by (simp add: demo_closed_both_def demo_time_wait_def run_defs)

lemmas demo_state_defs = demo_syn_sent_def demo_established_def demo_closing_def
  demo_closed_both_def demo_time_wait_def demo_syn_ack_def demo_fin_ack_def

lemma demo_reachable:
  "reachable (demo_env True) demo_syn_sent" "reachable (demo_env True) demo_established"
  "reachable (demo_env True) demo_closing" "reachable (demo_env True) demo_closed_both"
  "reachable (demo_env True) demo_time_wait"
proof -
  note room = sound_op_def not_stray_def roomy_def MAX_SEGMENT_SIZE_def seg_len_def flag_simps demo_state_defs
  have "reachable (demo_env True) ((Connection_new 9 [])\<lparr>options := SocketOptions_default\<rparr>)"
    by (rule reachable.made)
  moreover have "(Connection_new 9 [] :: (nat, nat) Connection)\<lparr>options := SocketOptions_default\<rparr> = Connection_new 9 []"
    by (simp add: Connection_new_def)
  ultimately have "reachable (demo_env True) (Connection_new 9 [])" by simp
  then show s1: "reachable (demo_env True) demo_syn_sent"
    by (rule reachable.step [OF _ _ demo_connect]) (simp add: room)
  then show s2: "reachable (demo_env True) demo_established"
    by (rule reachable.step [OF _ _ demo_opened]) (simp add: room)
  then show s3: "reachable (demo_env True) demo_closing"
    by (rule reachable.step [OF _ _ demo_close]) (simp add: room)
  then show s4: "reachable (demo_env True) demo_closed_both"
    by (rule reachable.step [OF _ _ demo_fins]) (simp add: room)
  then show "reachable (demo_env True) demo_time_wait"
    by (rule reachable.step [OF _ _ demo_drain]) (simp add: room)
qed

end
