(* ===== verification/Tcp_Safety.thy ===== *)
theory Tcp_Safety
  imports Tcp_Run
begin

text \<open>
  The safety and liveness properties of the reachable connections: the states agree with the
  buffers, unacknowledged segments have a timer, TIME-WAIT ends, and panics come only from
  the listed inputs.
\<close>

section \<open>Invariants of the reachable connections\<close>

text \<open>
  C3: in every reachable connection the state agrees with the buffers. Without a connection
  (closed, reset, listening) both buffers are as new and no timer runs. Once the transmit
  channel has left \<open>Open\<close> nothing is queued any more, and once it is \<open>Closed\<close> nothing is
  unacknowledged. The receive channel is \<open>Closed\<close> exactly when the reader has seen the end
  of the stream. In TIME-WAIT everything was sent, acknowledged and read. The
  retransmission queue is always the chain of segments from \<open>unack\<close> to \<open>tx.next\<close>.
\<close>

theorem reachable_states_match_buffers:
  assumes "reachable E c"
  shows "tx_wf (tx_buf c) \<and>
    (case connection_state c of
       ConnectionState.Established t r _ _ \<Rightarrow>
         (t \<noteq> Open \<longrightarrow> tx_stream c = [] \<and> tx_fin_marked c) \<and>
         (t = ChannelState.Closed \<longrightarrow> re_tx (tx_buf c) = []) \<and>
         (r = ChannelState.Closed \<longleftrightarrow> rx_done (rx_buf c)) \<and>
         (rx_fin (rx_buf c) \<longrightarrow> r \<noteq> Open) \<and>
         (r = ChannelState.Closed \<longrightarrow> rx_stream (rx_buf c) = [] \<and> rx_fin (rx_buf c))
     | TimeWait \<Rightarrow> tx_stream c = [] \<and> re_tx (tx_buf c) = [] \<and> rx_stream (rx_buf c) = [] \<and>
         rx_fin (rx_buf c)
     | SynSent \<Rightarrow> rx_stream (rx_buf c) = []
     | SynReceived \<Rightarrow> rx_stream (rx_buf c) = []
     | _ \<Rightarrow> tx_buf c = TxBuffer_default \<and> rx_buf c = RxBuffer_default \<and> timers c = Timers_default)"
  using reachable_wf [OF assms]
  by (cases "connection_state c"; simp add: quiet_conn_ok; simp add: conn_ok_def rx_ok_def tx_ok_def)

theorem reachable_states_match_buffers_witness:
  "connection_state demo_closing = ConnectionState.Established Fin Open True True \<and>
   tx_stream demo_closing = [] \<and> tx_wf (tx_buf demo_closing)"
  using reachable_states_match_buffers [OF demo_reachable(3)] by (simp add: demo_closing_def)

text \<open>
  C9: no segment is forgotten: in every reachable connection, as long as a segment is
  unacknowledged the retransmission timer is armed. In TIME-WAIT the TIME-WAIT timer is
  armed and only it.
\<close>

theorem unacknowledged_segments_have_a_timer:
  assumes "reachable E c"
  shows "(re_tx (tx_buf c) \<noteq> [] \<longrightarrow> timer_re_tx (timers c) \<noteq> None) \<and>
    (timer_timewait (timers c) \<noteq> None \<longleftrightarrow> connection_state c = TimeWait) \<and>
    (connection_state c = TimeWait \<longrightarrow> timer_re_tx (timers c) = None) \<and>
    timer_usertime (timers c) = None"
  using reachable_wf [OF assms] by (auto simp: conn_ok_def timers_ok_def)

theorem unacknowledged_segments_have_a_timer_witness:
  "re_tx (tx_buf demo_closing) \<noteq> [] \<and> timer_re_tx (timers demo_closing) \<noteq> None"
  using unacknowledged_segments_have_a_timer [OF demo_reachable(3)] by (simp add: demo_closing_def)

text \<open>
  C16: the receive buffer is bounded. Acceptance is judged by the full window and not by the
  free part that is advertised, so the bound is just under twice the initial window.
\<close>

theorem receive_buffer_is_bounded:
  assumes "reachable E c"
  shows "length (rx_stream (rx_buf c)) < 2 * unat INITIAL_WINDOW_SIZE \<and>
    unat (curr_window (rx_buf c)) \<le> unat INITIAL_WINDOW_SIZE"
  using reachable_wf [OF assms] by (simp add: conn_ok_def rx_ok_def unat_curr_window)

theorem receive_buffer_is_bounded_witness:
  "length (rx_stream (rx_buf demo_established)) < 2 * unat INITIAL_WINDOW_SIZE"
  using receive_buffer_is_bounded [OF demo_reachable(2)] by blast

text \<open>
  C15: timers never panic. On a reachable connection that has not backed off \<open>2 ^ 62\<close>
  seconds, a clock tick at any time returns; the \<open>unreachable!()\<close> and the assertion of the
  expiry handlers are not reached.
\<close>

theorem clock_ticks_never_panic:
  assumes "reachable E c" and "unat (exp_backoff c) < 2 ^ 62"
  shows "\<exists>c'. on_time_tick E time c = Some c'"
  using on_time_tick_total [OF reachable_wf [OF assms(1)] assms(2), of E time] by auto

theorem clock_ticks_never_panic_witness:
  "\<exists>c'. on_time_tick (demo_env True) 5 demo_closing = Some c'"
  by (rule clock_ticks_never_panic [OF demo_reachable(3)]) (simp add: demo_closing_def)

text \<open>
  C13: TIME-WAIT ends. A reachable connection in TIME-WAIT has a deadline, and the first tick
  at or after it closes the connection, with both buffers, the timers and the waiting calls
  cleared; a tick before it changes nothing.
\<close>

theorem time_wait_ends_at_the_deadline:
  assumes "reachable E c" and "connection_state c = TimeWait"
  shows "\<exists>deadline. timer_timewait (timers c) = Some deadline \<and>
    (\<forall>time. on_time_tick E time c =
       Some (if deadline \<le> time then clear E (c\<lparr>timers := (timers c)\<lparr>timer_timewait := None\<rparr>\<rparr>) else c)) \<and>
    connection_state (clear E (c\<lparr>timers := (timers c)\<lparr>timer_timewait := None\<rparr>\<rparr>)) = ConnectionState.Closed"
proof -
  have t: "timer_re_tx (timers c) = None" "timer_usertime (timers c) = None"
    "timer_timewait (timers c) \<noteq> None"
    using reachable_wf [OF assms(1)] assms(2) by (auto simp: conn_ok_def timers_ok_def)
  then obtain deadline where "timer_timewait (timers c) = Some deadline" by blast
  with t assms(2) show ?thesis
    by (intro exI [of _ deadline])
      (simp add: on_time_tick_def expired_def on_timer_timewait_def)
qed

theorem time_wait_ends_at_the_deadline_witness:
  "\<exists>c'. on_time_tick (demo_env True) 240000000009 demo_time_wait = Some c' \<and>
     connection_state c' = ConnectionState.Closed"
  using time_wait_ends_at_the_deadline [OF demo_reachable(5)] by (auto simp: demo_time_wait_def)

section \<open>Waiting calls\<close>

lemma conn_cookies_new [simp]: "conn_cookies (Connection_new a []) = {#}"
  by (simp add: conn_cookies_def)

text \<open>
  C10: no suspended call is lost or woken twice. In any run of calls, segments and ticks on a
  new connection (of fewer than \<open>2 ^ 64\<close> operations in a release build), the cookies handed
  out by \<open>RetryAfter\<close> and \<open>ContinueAfter\<close> are distinct, and each is either still in the
  table of suspended calls or has been delivered as an event exactly once.
\<close>

theorem waiting_calls_are_woken_exactly_once:
  assumes "visits_all (wait_order E)" and "debug_assertions E \<or> length xs < 2 ^ 64"
    and "conn.run E xs (Connection_new a []) = Some (rs, c)"
  shows "mset (map snd (suspended (events c))) + mset (map fst (delivered (user_data c)))
      = mset (concat (map issued rs)) \<and> distinct (concat (map issued rs))"
proof -
  have "conn_cookies c = mset (concat (map issued rs)) \<and>
      fresh_below (conn_cookies c) (next_cookie (events c))"
    using conn.run_accounts [of E xs "Connection_new a []" rs c] assms
    by (auto simp: Events_new_def Cookie_ZERO_def)
  with fresh_below_distinct show ?thesis unfolding conn_cookies_def by metis
qed

theorem waiting_calls_are_woken_exactly_once_witness:
  "mset (map snd (suspended (events demo_closing))) + mset (map fst (delivered (user_data demo_closing)))
     = {#0, 1#}"
proof -
  have "conn.run (demo_env True) [DoConnect, Segment demo_syn_ack, DoClose] (Connection_new 9 [])
      = Some ([Err (ContinueAfter 0), Ok 0, Err (ContinueAfter 1)], demo_closing)"
    by (simp add: demo_connect demo_opened demo_close del: conn_step.simps)
  from waiting_calls_are_woken_exactly_once [OF _ _ this] show ?thesis by (simp add: add_mset_commute)
qed

text \<open>
  C17: aborting an open connection tells everyone: the peer gets one RST at the next sequence
  number, every waiting call is told \<open>ConnectionReset\<close> exactly once, and the connection is
  closed with fresh buffers and no timer.
\<close>

theorem abort_tells_everyone:
  assumes "visits_all (wait_order E)"
    and "connection_state c = ConnectionState.Established t r cc ca"
  shows "case call_abort E c of (res, c') \<Rightarrow> res = Ok () \<and>
    connection_state c' = ConnectionState.Closed \<and> suspended (events c') = [] \<and>
    tx_buf c' = TxBuffer_default \<and> rx_buf c' = RxBuffer_default \<and> timers c' = Timers_default \<and>
    sent_segments (user_data c') = sent_segments (user_data c) @
      [(remote c, \<lparr>seqn = tx_next (tx_buf c), ackn = 0, window = curr_window (rx_buf c),
         flags = RST, data = []\<rparr>)] \<and>
    (\<exists>news. delivered (user_data c') = delivered (user_data c) @ news \<and>
       mset news = mset (map (\<lambda>x. (snd x, Err ConnectionReset)) (suspended (events c))))"
proof -
  let ?news = "map (\<lambda>x. (snd x, Err ConnectionReset :: Error + unit)) (wait_order E (suspended (events c)))"
  have n: "mset ?news = mset (map (\<lambda>x. (snd x, Err ConnectionReset)) (suspended (events c)))"
    using assms(1) by (simp add: visits_all_def)
  have empty: "wait_order E [] = []"
    using visits_all_set [OF assms(1), of "[]"] by simp
  show ?thesis
    using assms(2) n
    by (auto simp: call_abort_def Let_def history_simps clear_def hits_def empty SeqN_ZERO_def
        comp_def filter_empty_conv case_prod_beta intro!: exI [of _ ?news])
qed

theorem abort_tells_everyone_witness:
  "connection_state (snd (call_abort (demo_env True) demo_closing)) = ConnectionState.Closed"
  using abort_tells_everyone [of "demo_env True" demo_closing Fin Open True True]
  by (simp add: demo_closing_def case_prod_beta)

section \<open>Panics\<close>

text \<open>
  C4: the segment handler of a reachable connection (less than 2 GiB in flight) panics at
  most on the listed inputs: a SYN with data on an accepting connection, an RST in
  TIME-WAIT, a FIN together with data, sequence number 0 on the ACK that ends a passive
  close, and in debug builds the overflow of the congestion window and a FIN after
  \<open>close\<close> was called while our own FIN is blocked by the peer's window.
\<close>

theorem segments_panic_only_on_known_defects:
  assumes "reachable E c" and "roomy c" and "seg_len seg < 2 ^ 32" and "\<not> defect E seg c"
  shows "\<exists>c'. on_segment E seg c = Some c'"
  using on_segment_None [OF _ reachable_wf [OF assms(1)] assms(2,3), of E] assms(4) by auto

theorem segments_panic_only_on_known_defects_witness:
  "\<exists>c'. on_segment (demo_env True) (demo_seg 0xFFFFFFFF [1, 2]) demo_established = Some c'"
  by (rule segments_panic_only_on_known_defects [OF demo_reachable(2)])
    (simp_all add: roomy_def demo_established_def demo_seg_def seg_len_def flag_simps defect_def
      MAX_SEGMENT_SIZE_def last_ack_def cw_overflows_def FULLY_OPEN_def)

end
