(* ===== verification/Tcp_Defects.thy ===== *)
theory Tcp_Defects
  imports Tcp_Safety
begin

text \<open>
  Where the code does something its design cannot mean: each theorem states the general
  situation and what the code does in it, and its witness shows the situation on a concrete
  connection.
\<close>

section \<open>A segment with data and FIN\<close>

text \<open>
  C31: a peer that ends its stream the usual way, with a FIN on its last data segment, panics
  the receiver, in debug and release builds: the FIN is marked before the data is written.
\<close>

theorem last_data_with_fin_panics:
  assumes "connection_state c = ConnectionState.Established Open r cc ca"
    and "check_segment_seq_ok c seg" and "seqn seg = ackd (rx_buf c)" and "ackn seg = unack (tx_buf c)"
    and "flags seg = flags_or FIN ACK" and "data seg \<noteq> []"
  shows "on_segment E seg c = None"
  using assms
  by (simp add: on_segment_data flag_simps Let_def on_ack_nothing_new store_segment_def rx_write_cases)

theorem last_data_with_fin_panics_witness:
  "on_segment (demo_env True) ((demo_seg 0xFFFFFFFF [1, 2])\<lparr>ackn := 1001, flags := flags_or FIN ACK\<rparr>)
     demo_established = None"
  by (rule last_data_with_fin_panics [where r = Open and cc = False and ca = False])
    (simp_all add: demo_established_def demo_seg_def FULLY_OPEN_def check_segment_seq_ok_def
      curr_window_def rx_available_bytes_def queue_available_bytes_def in_window_def
      in_range_inclusive_def wrapping_add_def wrapping_sub_def seq_size_def flag_simps Let_def)

section \<open>Reset in TIME-WAIT\<close>

text \<open>
  C32: a peer's RST at the acknowledgement point panics a connection in TIME-WAIT: the
  handler's match has no arm for that state.
\<close>

theorem reset_in_time_wait_panics:
  assumes "reachable E c" and "connection_state c = TimeWait"
    and "flags seg = RST" and "data seg = []" and "seqn seg = ackd (rx_buf c)"
  shows "on_segment E seg c = None"
proof -
  have "rx_fin (rx_buf c)"
    using reachable_wf [OF assms(1)] assms(2) by (simp add: conn_ok_def rx_ok_def)
  then have "unat (curr_window (rx_buf c)) = 0" by (simp add: unat_curr_window)
  then have "curr_window (rx_buf c) = 0" by (simp add: unat_eq_zero)
  with assms have "check_segment_seq_ok c seg"
    by (simp add: check_segment_seq_ok_def seq_size_def flag_simps)
  with assms show ?thesis
    by (simp add: on_segment_def on_segment_synchronized_def Let_def flag_simps on_rst_def)
qed

theorem reset_in_time_wait_panics_witness:
  "on_segment (demo_env True) \<lparr>seqn = 0, ackn = 0, window = 0, flags = RST, data = []\<rparr>
     demo_time_wait = None"
  by (rule reset_in_time_wait_panics [OF demo_reachable(5)]) (simp_all add: demo_time_wait_def)

section \<open>Close with our own FIN blocked\<close>

lemma on_ack_blocked:
  assumes st: "connection_state c = ConnectionState.Established Open r cc ca"
    and w: "tx_window (tx_buf c) = 0" and u: "unack (tx_buf c) = tx_next (tx_buf c)"
    and a: "ackn seg = unack (tx_buf c)" and s: "seqn seg = ackd (rx_buf c)"
    and d: "data seg = []" and f: "\<not> rx_fin (rx_buf c)"
  obtains c' where "on_ack E seg c = Some (True, c')" and "connection_state c' = connection_state c"
proof -
  obtain rx' where rx': "rx_write (debug_assertions E) seg (rx_buf c) = Some rx'"
    using d f by (simp add: rx_write_cases)
  let ?c = "c\<lparr>rx_buf := rx'\<rparr>"
  have "can_ack ?c" using st by (simp add: can_ack_def)
  moreover have "\<not> ack_fin ?c"
    using w u by (simp add: ack_fin_def ack_limit_def space_available_def wrapping_add_def raw_def)
  ultimately obtain c' q where "send_ack E ?c = Some c'" "connection_state c' = connection_state ?c"
    by (elim send_ack_spec [of ?c E]) simp
  with rx' s show thesis
    by (intro that [of c']) (simp_all add: on_ack_nothing_new [OF st a] store_segment_def)
qed

text \<open>
  C35: in a debug build, when \<open>close\<close> was called while the peer's window was full, so that our
  FIN is still queued, the peer's own FIN panics the connection: the transition check does
  not allow another state with an open transmit channel.
\<close>

theorem fin_after_blocked_close_panics:
  assumes "connection_state c = ConnectionState.Established Open Open True ca"
    and "check_segment_seq_ok c seg" and "seqn seg = ackd (rx_buf c)"
    and "unack (tx_buf c) = tx_next (tx_buf c)" and "ackn seg = unack (tx_buf c)"
    and "flags seg = flags_or FIN ACK" and "data seg = []" and "window seg = 0"
    and "\<not> rx_fin (rx_buf c)"
  shows "on_segment E seg c = None \<longleftrightarrow> debug_assertions E"
proof -
  let ?c0 = "c\<lparr>tx_buf := (tx_buf c)\<lparr>tx_window := min (window seg) (congestion_window c)\<rparr>\<rparr>"
  obtain c' where c': "on_ack E seg ?c0 = Some (True, c')"
    and st: "connection_state c' = connection_state ?c0"
    by (rule on_ack_blocked [of ?c0 Open True ca seg E]) (use assms in simp_all)
  have "on_segment E seg c = on_fin E (is_non_ordered_ack (tx_buf ?c0) (ackn seg)) c'"
    using assms c' st by (simp add: on_segment_data flag_simps Let_def)
  also have "\<dots> = set_state E (ConnectionState.Established Open Fin True ca)
      (trigger_event E is_Recv (Ok ()) c')"
    using st assms(1) by (simp add: on_fin_def)
  finally show ?thesis
    using st assms(1) by (cases "debug_assertions E")
      (simp_all add: set_state_not_closing debug_validate_transition_def panic_simps)
qed

definition demo_blocked :: "(nat, nat) Connection" where
  "demo_blocked = demo_established\<lparr>connection_state := ConnectionState.Established Open Open True True\<rparr>"

theorem fin_after_blocked_close_panics_witness:
  "on_segment (demo_env True) \<lparr>seqn = 0xFFFFFFFF, ackn = 1001, window = 0, flags = flags_or FIN ACK,
     data = []\<rparr> demo_blocked = None"
proof -
  let ?seg = "\<lparr>seqn = 0xFFFFFFFF, ackn = 1001, window = 0, flags = flags_or FIN ACK, data = []\<rparr>"
  have "on_segment (demo_env True) ?seg demo_blocked = None \<longleftrightarrow> debug_assertions (demo_env True)"
    by (rule fin_after_blocked_close_panics)
      (simp_all add: demo_blocked_def demo_established_def check_segment_seq_ok_def
        curr_window_def rx_available_bytes_def queue_available_bytes_def in_window_def
        in_range_inclusive_def wrapping_add_def wrapping_sub_def seq_size_def flag_simps Let_def)
  then show ?thesis by simp
qed


section \<open>Sending after shutdown\<close>

text \<open>
  C38: on a reachable connection whose transmit channel has left \<open>Open\<close>, a send panics in
  every build instead of returning an error: by the debug assertion, or by the assertion of
  the marked queue.
\<close>

theorem send_after_shutdown_panics:
  assumes "reachable E c" and "connection_state c = ConnectionState.Established t r cc ca"
    and "t \<noteq> Open"
  shows "call_send E bytes c = None"
proof (cases "bytes = []")
  case False
  have "tx_fin_marked c"
    using reachable_wf [OF assms(1)] assms(2,3) by (simp add: conn_ok_def tx_ok_def)
  then have "queue_write_bytes bytes (tx_queue (tx_buf c)) = None"
    using False by (simp add: queue_write_bytes_eq_None)
  then have "write_tx bytes c = None" by (simp add: write_tx_def)
  then show ?thesis
    using assms(2,3) by (auto simp: call_send_def debug_assert_def rust_assert_def)
qed (simp add: call_send_def)

theorem send_after_shutdown_panics_witness: "call_send (demo_env True) [1, 2] demo_closing = None"
  by (rule send_after_shutdown_panics [OF demo_reachable(3), where t = Fin])
    (simp_all add: demo_closing_def)

section \<open>A FIN without an ACK\<close>

text \<open>
  C37: a FIN that carries no ACK is taken for the end of the peer's stream although it is
  neither acknowledged nor recorded in the receive buffer; from then on a read of more than
  is buffered panics instead of reporting the end.
\<close>

theorem fin_without_ack_panics_the_reader:
  assumes "connection_state c = ConnectionState.Established t Open cc ca" and "cc \<longrightarrow> t \<noteq> Open"
    and "check_segment_seq_ok c seg" and "flags seg = FIN" and "\<not> rx_fin (rx_buf c)"
    and "length (rx_stream (rx_buf c)) < length buf"
  shows "\<exists>c'. on_segment E seg c = Some c' \<and> rx_buf c' = rx_buf c \<and>
    connection_state c' = ConnectionState.Established t Fin cc ca \<and> call_recv E buf c' = None"
proof -
  let ?c0 = "c\<lparr>tx_buf := (tx_buf c)\<lparr>tx_window := min (window seg) (congestion_window c)\<rparr>\<rparr>"
  let ?s = "ConnectionState.Established t Fin cc ca"
  let ?c' = "enter_state E ?s (trigger_event E is_Recv (Ok ()) ?c0)"
  have no_ack: "\<not> flags_contains FIN ACK" "\<not> flags_contains FIN RST" "\<not> flags_contains FIN SYN"
    by (simp_all add: flag_bit_defs)
  have "debug_validate_transition (debug_assertions E) (connection_state c) ?s \<noteq> None"
    using assms(1,2) validate_Established_iff [of t Open cc ca t Fin cc ca]
    by (cases "debug_assertions E") simp_all
  then have "on_segment E seg c = Some ?c'"
    using assms no_ack
    by (simp add: on_segment_established on_segment_synchronized_def Let_def on_fin_def
        set_state_not_closing flag_bits.contains_refl)
  moreover have "rx_read_bytes (length buf) (rx_buf c) = None"
    using assms by (simp add: rx_read_bytes_eq_None)
  ultimately show ?thesis by (intro exI [of _ ?c']) (simp add: call_recv_def)
qed

theorem fin_without_ack_panics_the_reader_witness:
  "\<exists>c'. on_segment (demo_env True) ((demo_seg 0xFFFFFFFF [])\<lparr>flags := FIN\<rparr>) demo_established = Some c' \<and>
     call_recv (demo_env True) [0] c' = None"
proof -
  have "\<exists>c'. on_segment (demo_env True) ((demo_seg 0xFFFFFFFF [])\<lparr>flags := FIN\<rparr>) demo_established
      = Some c' \<and> rx_buf c' = rx_buf demo_established \<and>
      connection_state c' = ConnectionState.Established Open Fin False False \<and>
      call_recv (demo_env True) [0] c' = None"
    by (rule fin_without_ack_panics_the_reader)
      (simp_all add: demo_established_def demo_seg_def FULLY_OPEN_def check_segment_seq_ok_def
        curr_window_def rx_available_bytes_def queue_available_bytes_def in_window_def
        in_range_inclusive_def wrapping_add_def wrapping_sub_def seq_size_def Let_def contents_def
        flag_bit_defs)
  then show ?thesis by blast
qed

section \<open>Sending before the connection is open\<close>

text \<open>
  C34: a send before the connection is open queues the data behind what is queued already, but
  waits for the acknowledgement of \<open>tx.next\<close> plus its own length: it is woken as many bytes
  too early as were queued before it.
\<close>

theorem early_sends_wait_for_too_little:
  assumes "handshaking (connection_state c)" and "call_send E bytes c = Some (r, c')"
  shows "\<exists>k waited. r = Err (ContinueAfter k) \<and> (Acknowledged waited, k) \<in> set (suspended (events c')) \<and>
    tx_stream c' = tx_stream c @ bytes \<and> tx_next (tx_buf c') = tx_next (tx_buf c) \<and>
    tx_next (tx_buf c') + as_u32 (length (tx_stream c')) - waited = as_u32 (length (tx_stream c))"
proof -
  from assms obtain c1 where W: "write_tx bytes c = Some c1"
    and C: "continue_after E (Acknowledged (tx_next (tx_buf c1) + as_u32 (length bytes))) c1
      = Some (r, c')"
    by (auto simp: call_send_def handshaking_def bind_eq_Some_conv Let_def wrapping_add_def)
  from W obtain q where c1: "c1 = c\<lparr>tx_buf := (tx_buf c)\<lparr>tx_queue := q\<rparr>\<rparr>"
    and q: "contents q = tx_stream c @ bytes"
    by (rule write_tx_frame)
  from C obtain k where "r = Err (ContinueAfter k)" "tx_buf c' = tx_buf c1"
      "(Acknowledged (tx_next (tx_buf c1) + as_u32 (length bytes)), k) \<in> set (suspended (events c'))"
    by (auto simp: continue_after_def return_continue_after_def bind_eq_Some_conv Let_def)
  with c1 q show ?thesis
    by (intro exI [of _ k] exI [of _ "tx_next (tx_buf c1) + as_u32 (length bytes)"]) simp
qed

theorem early_sends_wait_for_too_little_witness:
  "\<exists>c1 c2 k. call_send (demo_env True) [1, 2, 3] demo_syn_sent = Some (Err (ContinueAfter 1), c1) \<and>
     call_send (demo_env True) [4, 5] c1 = Some (Err (ContinueAfter k), c2) \<and>
     tx_stream c2 = [1, 2, 3, 4, 5] \<and> (Acknowledged 1003, k) \<in> set (suspended (events c2))"
proof -
  obtain c1 where c1: "call_send (demo_env True) [1, 2, 3] demo_syn_sent = Some (Err (ContinueAfter 1), c1)"
      "connection_state c1 = SynSent" "tx_stream c1 = [1, 2, 3]" "next_cookie (events c1) = 2"
      "tx_next (tx_buf c1) = 1001" "fin (tx_queue (tx_buf c1)) = False"
    by (simp add: call_send_def write_tx_def demo_syn_sent_def run_defs contents_def)
  then have "queue_write_bytes [4, 5] (tx_queue (tx_buf c1)) \<noteq> None"
    unfolding queue_write_bytes_eq_None by simp
  then obtain q where "queue_write_bytes [4, 5] (tx_queue (tx_buf c1)) = Some q" by blast
  then obtain r c2 where c2: "call_send (demo_env True) [4, 5] c1 = Some (r, c2)"
    using c1(2,4) by (simp add: call_send_def write_tx_def Let_def continue_after_def
        return_continue_after_def new_cookie_def cookie_next_def ovf_add_def)
  have "handshaking (connection_state c1)" using c1 by simp
  from early_sends_wait_for_too_little [OF this c2] c1
  obtain k waited where "r = Err (ContinueAfter k)" "(Acknowledged waited, k) \<in> set (suspended (events c2))"
      "tx_stream c2 = [1, 2, 3, 4, 5]" "1001 + 5 - waited = 3"
    by auto
  moreover from this(4) have "waited = 1003" by (simp add: algebra_simps)
  ultimately show ?thesis using c1(1) c2 by blast
qed


section \<open>Shutdown before the peer's window opens\<close>

text \<open>
  C36: a shutdown (or close) in \<open>SynReceived\<close> moves the transmit channel to \<open>Fin\<close> even when
  \<open>send_ack\<close> found no room for the FIN: no segment with a FIN has been sent, none waits for
  retransmission, and since FINs are only sent from an open channel none ever will be.
\<close>

theorem shutdown_marks_fin_without_sending_it:
  assumes "connection_state c = SynReceived" and "space_available (tx_buf c) = 0"
    and "\<not> any_suspended is_Acknowledged (events c)"
  shows "\<exists>c' replies. call_shutdown E c = Some (Ok (), c') \<and>
    connection_state c' = ConnectionState.Established Fin Open False True \<and>
    sent_segments (user_data c') = sent_segments (user_data c) @ replies \<and>
    (\<forall>(a, seg) \<in> set replies. \<not> flags_contains (flags seg) FIN) \<and>
    re_tx (tx_buf c') = re_tx (tx_buf c)"
proof -
  let ?c0 = "c\<lparr>tx_buf := (tx_buf c)\<lparr>tx_queue := mark_fin (tx_queue (tx_buf c))\<rparr>\<rparr>"
  have nf: "\<not> ack_fin ?c0"
    using assms(2) by (simp add: ack_fin_def ack_limit_def space_available_def)
  have "can_ack ?c0" using assms(1) by (simp add: can_ack_def)
  then obtain c1 q where c1: "send_ack E ?c0 = Some c1"
      "connection_state c1 = (if ack_fin ?c0 then fin_state (connection_state ?c0)
         else connection_state ?c0)"
      "sent_segments (user_data c1) = sent_segments (user_data ?c0) @
         (if ack_duplicate ?c0 then [] else [(remote ?c0, ack_segment ?c0)])"
      "tx_buf c1 = (if ack_duplicate ?c0 then tx_buf ?c0 else on_send (ack_segment ?c0) (tx_buf ?c0))
         \<lparr>tx_queue := q\<rparr>"
    by (rule send_ack_spec [of ?c0 E])
  have "seg_len (ack_segment ?c0) = 0"
    using nf assms(2) by (simp add: seg_len_ack_segment ack_limit_def space_available_def)
  then have "re_tx (tx_buf c1) = re_tx (tx_buf c)"
    using c1(4) by (simp add: on_send_def seq_size_of_nat Let_def)
  let ?s = "ConnectionState.Established Fin Open False True"
  have st: "connection_state c1 = SynReceived" using c1(2) nf assms(1) by simp
  have "call_shutdown E c = Some (Ok (), enter_state E ?s c1)"
    using assms(1,3) c1(1) st by (simp add: call_shutdown_def mark_fin_and_send_def set_state_not_closing)
  with c1(3) nf \<open>re_tx (tx_buf c1) = re_tx (tx_buf c)\<close> show ?thesis
    by (intro exI [of _ "enter_state E ?s c1"]
        exI [of _ "if ack_duplicate ?c0 then [] else [(remote ?c0, ack_segment ?c0)]"])
      (auto simp: ack_segment_def flag_simps ack_fin_def)
qed

definition demo_syn_received :: "(nat, nat) Connection" where
  "demo_syn_received = demo_syn_sent\<lparr>connection_state := SynReceived,
     tx_buf := (tx_buf demo_syn_sent)\<lparr>tx_window := 1\<rparr>\<rparr>"

theorem shutdown_marks_fin_without_sending_it_witness:
  "\<exists>c'. call_shutdown (demo_env True) demo_syn_received = Some (Ok (), c') \<and>
     connection_state c' = ConnectionState.Established Fin Open False True"
proof -
  have "connection_state demo_syn_received = SynReceived"
    "space_available (tx_buf demo_syn_received) = 0"
    "\<not> any_suspended is_Acknowledged (events demo_syn_received)"
    by (simp_all add: demo_syn_received_def demo_syn_sent_def space_available_def wrapping_add_def
        raw_def any_suspended_def)
  from shutdown_marks_fin_without_sending_it [OF this, of "demo_env True"] show ?thesis by blast
qed

section \<open>After the last acknowledgement\<close>

lemma on_new_ack_sent:
  assumes "on_new_ack E seg c = Some c'"
  shows "sent_segments (user_data c') = sent_segments (user_data c) \<and> remote c' = remote c"
  using assms
  by (auto simp: on_new_ack_def window_update_def Let_def bind_eq_Some_conv history_simps)

lemma on_new_ack_empty_defined:
  "data seg = [] \<Longrightarrow> on_new_ack E seg c \<noteq> None"
  using on_new_ack_None [of E seg c] unsigned_less [of "congestion_window c", where ?'a = nat]
  by (auto simp: cw_overflows_def)

text \<open>The acknowledgement that ends a passive close clears the connection.\<close>

lemma last_ack_clears:
  assumes wf: "conn_wf c"
    and st: "connection_state c = ConnectionState.Established Fin ChannelState.Closed True False"
    and a: "ackn seg = tx_next (tx_buf c)" and d: "data seg = []"
  obtains c1 c2 where
      "(if unack (tx_buf c) \<noteq> ackn seg then on_new_ack E seg c else Some c) = Some c1"
    and "on_ack_of_fin E seg c1 = Some (clear E c2)"
    and "tx_next (tx_buf c1) = tx_next (tx_buf c)" "unack (tx_buf c1) = ackn seg"
    and "sent_segments (user_data c2) = sent_segments (user_data c)" and "remote c2 = remote c"
proof -
  have "(if unack (tx_buf c) \<noteq> ackn seg then on_new_ack E seg c else Some c) \<noteq> None"
    using on_new_ack_empty_defined [OF d, of E c] by simp
  then obtain c1 where
    c1: "(if unack (tx_buf c) \<noteq> ackn seg then on_new_ack E seg c else Some c) = Some c1"
    by blast
  then have sent: "sent_segments (user_data c1) = sent_segments (user_data c)" "remote c1 = remote c"
    using on_new_ack_sent [of E seg c c1] by (auto split: if_splits)
  have C: "conn_wf c1" "connection_state c1 = connection_state c" "unack (tx_buf c1) = ackn seg"
      "tx_next (tx_buf c1) = tx_next (tx_buf c)"
    using c1 wf a st on_new_ack_ok [of E seg c c1 False Fin ChannelState.Closed True False]
    by (auto split: if_splits)
  have "re_tx (tx_buf c1) = []"
    using C a by (intro tx_wf_all_acked) (simp_all add: conn_ok_def tx_ok_def)
  moreover have "queue_is_empty (tx_queue (tx_buf c1))"
    using C st by (auto simp: is_empty_contents conn_ok_def tx_ok_def)
  moreover have "debug_validate_transition (debug_assertions E)
      (ConnectionState.Established Fin ChannelState.Closed True False)
      (ConnectionState.Established ChannelState.Closed ChannelState.Closed True False) \<noteq> None"
    using validate_Established_iff [of Fin ChannelState.Closed True False ChannelState.Closed
        ChannelState.Closed True False]
    by (cases "debug_assertions E") simp_all
  ultimately have "on_ack_of_fin E seg c1 = Some (clear E (enter_state E
      (ConnectionState.Established ChannelState.Closed ChannelState.Closed True False) c1))"
    using C st a by (simp add: on_ack_of_fin_def set_state_closing)
  from that [OF c1 this C(4,3)] sent show thesis by simp
qed

text \<open>
  C39: the ACK of our FIN that ends a passive close clears the connection, and then the
  handler goes on with the cleared buffers. If the segment's sequence number is in the upper
  half of the number space (exclusive of \<open>2 ^ 31\<close>), a spurious acknowledgement numbered 0 of
  number 0 is sent to the peer; otherwise nothing is.
\<close>

theorem last_ack_may_send_a_spurious_reply:
  assumes wf: "conn_wf c"
    and "connection_state c = ConnectionState.Established Fin ChannelState.Closed True False"
    and "ackn seg = tx_next (tx_buf c)" and "seqn seg = ackd (rx_buf c)" and "seqn seg \<noteq> 0"
    and "flags seg = ACK" and "data seg = []"
  shows "\<exists>c'. on_segment E seg c = Some c' \<and> connection_state c' = ConnectionState.Closed \<and>
    sent_segments (user_data c') = sent_segments (user_data c) @
      (if 2 ^ 31 < unat (seqn seg)
       then [(remote c, \<lparr>seqn = 0, ackn = 0, window = INITIAL_WINDOW_SIZE, flags = ACK, data = []\<rparr>)]
       else [])"
proof -
  let ?c0 = "c\<lparr>tx_buf := (tx_buf c)\<lparr>tx_window := min (window seg) (congestion_window c)\<rparr>\<rparr>"
  have "rx_fin (rx_buf c)" using wf assms(2) by (simp add: conn_ok_def rx_ok_def)
  then have "unat (curr_window (rx_buf c)) = 0" by (simp add: unat_curr_window)
  then have "curr_window (rx_buf c) = 0" by (simp add: unat_eq_zero)
  with assms have acc: "check_segment_seq_ok c seg"
    by (simp add: check_segment_seq_ok_def seq_size_def flag_simps)
  obtain c1 c2 where
    c1: "(if unack (tx_buf ?c0) \<noteq> ackn seg then on_new_ack E seg ?c0 else Some ?c0) = Some c1"
    and c2: "on_ack_of_fin E seg c1 = Some (clear E c2)"
    and sent: "sent_segments (user_data c2) = sent_segments (user_data c)" "remote c2 = remote c"
    by (rule last_ack_clears [of ?c0 seg E]) (use assms in simp_all)
  let ?reply = "\<lparr>seqn = 0, ackn = 0, window = INITIAL_WINDOW_SIZE, flags = ACK, data = []\<rparr>"
  have w: "curr_window RxBuffer_default = INITIAL_WINDOW_SIZE"
    by (simp add: word_unat_eq_iff unat_curr_window)
  have "unat (seqn seg) \<noteq> 0" using assms(5) by (simp add: unat_eq_zero)
  then have "unat (0 - seqn seg) = 2 ^ 32 - unat (seqn seg)"
    using u32_minus_nat [of "unat (seqn seg)" 0] unsigned_less [of "seqn seg", where ?'a = nat]
    by simp
  then have "seqn_lt (seqn seg) 0 \<longleftrightarrow> 2 ^ 31 < unat (seqn seg)"
    using unsigned_less [of "seqn seg", where ?'a = nat] by (auto simp: seqn_lt_unat)
  then have "on_ack E seg ?c0 = Some (False,
      if 2 ^ 31 < unat (seqn seg) then user_send ?reply (clear E c2) else clear E c2)"
    using c1 c2 assms(2,3,5) w by (simp add: on_ack_def Let_def store_segment_def)
  with acc assms sent show ?thesis
    by (simp add: on_segment_data flag_simps Let_def history_simps)
qed

definition demo_last_ack :: "(nat, nat) Connection" where
  "demo_last_ack = demo_time_wait
     \<lparr>connection_state := ConnectionState.Established Fin ChannelState.Closed True False,
      rx_buf := (rx_buf demo_time_wait)\<lparr>ackd := 0xC0000000\<rparr>, timers := Timers_default\<rparr>"

theorem last_ack_may_send_a_spurious_reply_witness:
  "\<exists>c'. on_segment (demo_env True)
     \<lparr>seqn = 0xC0000000, ackn = 1002, window = 4096, flags = ACK, data = []\<rparr> demo_last_ack = Some c' \<and>
     connection_state c' = ConnectionState.Closed \<and>
     last (sent_segments (user_data c')) =
       (9, \<lparr>seqn = 0, ackn = 0, window = INITIAL_WINDOW_SIZE, flags = ACK, data = []\<rparr>)"
proof -
  have "conn_wf demo_last_ack"
    by (simp add: demo_last_ack_def demo_time_wait_def conn_ok_def rx_ok_def tx_ok_def
        timers_ok_established tx_wf_def tx_start_def contents_def window_bound_eq INITIAL_WINDOW_SIZE_def)
  from last_ack_may_send_a_spurious_reply [OF this,
      of "\<lparr>seqn = 0xC0000000, ackn = 1002, window = 4096, flags = ACK, data = []\<rparr>" "demo_env True"]
  show ?thesis by (auto simp: demo_last_ack_def demo_time_wait_def)
qed

section \<open>Waking a reader\<close>

lemma drain_keeps_other:
  "\<not> f w \<Longrightarrow> (w, k) \<in> set (suspended (events (trigger_event E f r c))) \<longleftrightarrow>
     (w, k) \<in> set (suspended (events c))"
  by (simp add: history_simps)

lemma established_triggers_keep_readers:
  "(Recv n, k) \<in> set (suspended (events (established_triggers E c))) \<longleftrightarrow>
     (Recv n, k) \<in> set (suspended (events c))"
  by (simp add: established_triggers_def Let_def drain_keeps_other split: ConnectionState.split)

lemma enter_state_keeps_readers:
  "(Recv n, k) \<in> set (suspended (events (enter_state E s c))) \<longleftrightarrow>
     (Recv n, k) \<in> set (suspended (events c))"
  by (simp add: enter_state_def established_triggers_keep_readers drain_keeps_other)

lemma send_ack_keeps_readers:
  assumes H: "send_ack E c = Some c'" and can: "can_ack c"
  shows "(Recv n, k) \<in> set (suspended (events c')) \<longleftrightarrow> (Recv n, k) \<in> set (suspended (events c))"
proof -
  from H obtain bs fn c1 fl c2 where t: "send_ack_take E c = Some ((bs, fn), c1)"
    and f: "send_ack_flags E fn c1 = Some (fl, c2)" and c': "c' = send_ack_emit E fl bs c2"
    by (auto simp: send_ack_def bind_eq_Some_conv)
  have "(Recv n, k) \<in> set (suspended (events c1)) \<longleftrightarrow> (Recv n, k) \<in> set (suspended (events c))"
    using t by (auto simp: send_ack_take_def Let_def bind_eq_Some_conv drain_keeps_other split: if_splits)
  moreover have "connection_state c1 = connection_state c"
    using t by (auto simp: send_ack_take_def Let_def bind_eq_Some_conv split: if_splits)
  then have "c2 = c1 \<or> c2 = enter_state E (fin_state (connection_state c)) c1"
    using f can by (auto simp: can_ack_def send_ack_flags_spec split: if_splits)
  then have "(Recv n, k) \<in> set (suspended (events c2)) \<longleftrightarrow> (Recv n, k) \<in> set (suspended (events c1))"
    by (auto simp: enter_state_keeps_readers)
  moreover have "events (send_ack_emit E fl bs c2) = events c2"
    by (simp add: send_ack_emit_def Let_def)
  ultimately show ?thesis by (simp add: c')
qed

text \<open>
  C33: storing data does not wake the readers waiting for it. A data segment that acknowledges
  nothing new is appended to the stream, and every suspended read stays suspended, however
  much data it waits for and however much is now buffered.
\<close>

theorem data_does_not_wake_readers:
  assumes "connection_state c = ConnectionState.Established Open r cc ca"
    and "check_segment_seq_ok c seg" and "seqn seg = ackd (rx_buf c)" and "ackn seg = unack (tx_buf c)"
    and "flags seg = ACK" and "on_segment E seg c = Some c'"
  shows "rx_stream (rx_buf c') = rx_stream (rx_buf c) @ data seg \<and>
    (\<forall>n k. (Recv n, k) \<in> set (suspended (events c)) \<longrightarrow> (Recv n, k) \<in> set (suspended (events c')))"
proof -
  let ?c0 = "c\<lparr>tx_buf := (tx_buf c)\<lparr>tx_window := min (window seg) (congestion_window c)\<rparr>\<rparr>"
  have "on_ack E seg ?c0 = store_segment E seg ?c0"
    using assms(1,4) by (intro on_ack_nothing_new) simp_all
  with assms have "store_segment E seg ?c0 = Some (True, c')"
    by (auto simp: on_segment_data flag_simps Let_def bind_eq_Some_conv store_segment_def split: if_splits)
  then obtain rx' where rx': "rx_write (debug_assertions E) seg (rx_buf c) = Some rx'"
    and S: "send_ack E (?c0\<lparr>rx_buf := rx'\<rparr>) = Some c'"
    using assms(3) by (auto simp: store_segment_def bind_eq_Some_conv)
  have can: "can_ack (?c0\<lparr>rx_buf := rx'\<rparr>)" using assms(1) by (simp add: can_ack_def)
  obtain c'' q where "send_ack E (?c0\<lparr>rx_buf := rx'\<rparr>) = Some c''"
      "rx_buf c'' = rx_buf (?c0\<lparr>rx_buf := rx'\<rparr>)"
    by (rule send_ack_spec [OF can, of E])
  with S have "rx_buf c' = rx'" by simp
  with rx_writeD(1) [OF rx'] send_ack_keeps_readers [OF S can] show ?thesis by simp
qed

definition demo_reading :: "(nat, nat) Connection" where
  "demo_reading = demo_established\<lparr>events := \<lparr>suspended = [(Recv 2, 1)], next_cookie = 2\<rparr>\<rparr>"

theorem data_does_not_wake_readers_witness:
  "\<exists>c'. on_segment (demo_env True) ((demo_seg 0xFFFFFFFF [1, 2])\<lparr>ackn := 1001\<rparr>) demo_reading = Some c' \<and>
     rx_stream (rx_buf c') = [1, 2] \<and> (Recv 2, 1) \<in> set (suspended (events c'))"
proof -
  let ?seg = "(demo_seg 0xFFFFFFFF [1, 2])\<lparr>ackn := 1001\<rparr>"
  obtain c' where c': "on_segment (demo_env True) ?seg demo_reading = Some c'"
    by (simp add: demo_reading_def demo_established_def demo_seg_def run_defs)
  have "rx_stream (rx_buf c') = rx_stream (rx_buf demo_reading) @ data ?seg \<and>
    (\<forall>n k. (Recv n, k) \<in> set (suspended (events demo_reading)) \<longrightarrow> (Recv n, k) \<in> set (suspended (events c')))"
    by (rule data_does_not_wake_readers [OF _ _ _ _ _ c', where r = Open and cc = False and ca = False])
      (simp_all add: demo_reading_def demo_established_def demo_seg_def FULLY_OPEN_def
        check_segment_seq_ok_def curr_window_def rx_available_bytes_def queue_available_bytes_def
        in_window_def in_range_inclusive_def wrapping_add_def wrapping_sub_def seq_size_def flag_simps Let_def)
  with c' show ?thesis
    by (auto simp: demo_reading_def demo_established_def demo_seg_def contents_def)
qed

end
