(* ===== verification/Tcp_Listener.thy ===== *)
theory Tcp_Listener
  imports Tcp_Run
begin

text \<open>
  The listening socket as a machine driven by accept calls, segments and close: its backlog,
  its suspended accept calls (a second instance of \<open>cookie_accounting\<close>) and its replies.
\<close>

section \<open>The listening socket as a machine\<close>

datatype ('a, 't) listen_op =
    Accept "('a, 't) ListenSocket \<Rightarrow> ('a, 't) history"
  | ListenSegment 'a SegmentMeta
  | ListenClose

text \<open>The result of an accept is the new connection; the other operations return nothing.\<close>

fun listen_step ::
  "('a, 't) env \<Rightarrow> ('a, 't) listen_op \<Rightarrow> ('a, 't) ListenSocket
     \<Rightarrow> ((Error + ('a \<times> ('a, 't) Connection) option) \<times> ('a, 't) ListenSocket) option" where
  "listen_step E (Accept f) s = map_option (apfst (map_sum id Some)) (listen_accept E f s)"
| "listen_step E (ListenSegment addr seg) s = Some (Ok None, listen_on_segment E addr seg s)"
| "listen_step E ListenClose s = Some (Ok None, listen_close E s)"

definition listen_cookies :: "('a, 't) ListenSocket \<Rightarrow> Cookie multiset" where
  "listen_cookies s = mset (map snd (suspended (listen_events s))) +
     mset (map fst (delivered (listen_user_data s)))"

lemma delivered_sends [simp]: "delivered (map (\<lambda>(addr, seg). Send addr (f seg)) xs) = []"
  by (induction xs) auto

lemma sent_sends [simp]:
  "sent_segments (map (\<lambda>(addr, seg). Send addr (f seg)) xs) = map (\<lambda>(addr, seg). (addr, f seg)) xs"
  by (induction xs) auto

lemma listen_close_simps [simp]:
  "listen_queue (listen_close E s) = []" "listen_open (listen_close E s) = False"
  "suspended (listen_events (listen_close E s)) = []" "backlog (listen_close E s) = backlog s"
  "next_cookie (listen_events (listen_close E s)) = next_cookie (listen_events s)"
  by (simp_all add: listen_close_def drain_filter_def Let_def filter_empty_conv case_prod_beta)

lemma listen_close_history:
  "listen_user_data (listen_close E s) = listen_user_data s @
     map (\<lambda>k. Event k (Err ListenClosed)) (map snd (listen_order E (suspended (listen_events s)))) @
     map (\<lambda>(addr, seg). Send addr (rst_reply seg)) (listen_queue s)"
  by (simp add: listen_close_def drain_filter_def Let_def)

lemma listen_cookies_close:
  assumes "visits_all (listen_order E)"
  shows "listen_cookies (listen_close E s) = listen_cookies s"
proof -
  have "mset (map snd (listen_order E (suspended (listen_events s))))
      = mset (map snd (suspended (listen_events s)))"
    using assms by (simp add: visits_all_def mset_map del: mset_map [symmetric])
  then show ?thesis by (simp add: listen_cookies_def listen_close_history comp_def)
qed

lemma wake_one_cases:
  assumes "visits_all (listen_order E)"
  obtains (asleep) "suspended (listen_events s) = []" "wake_one E s = s"
  | (woken) cookie where "((), cookie) \<in> set (suspended (listen_events s))"
      "wake_one E s = s\<lparr>listen_events := (listen_events s)\<lparr>suspended :=
         removeAll ((), cookie) (suspended (listen_events s))\<rparr>,
         listen_user_data := listen_user_data s @ [Event cookie (Ok ())]\<rparr>"
proof (cases "listen_order E (suspended (listen_events s))")
  case Nil
  with visits_all_set [OF assms, of "suspended (listen_events s)"] asleep show thesis
    by (simp add: wake_one_def)
next
  case (Cons x xs)
  then have "x \<in> set (suspended (listen_events s))"
    using visits_all_set [OF assms, of "suspended (listen_events s)"] by auto
  with Cons woken [of "snd x"] show thesis by (cases x) (simp add: wake_one_def)
qed

lemma removeAll_distinct_mset:
  "distinct (map snd xs) \<Longrightarrow> x \<in> set xs \<Longrightarrow>
     mset (map snd xs) = add_mset (snd x) (mset (map snd (removeAll x xs)))"
proof (induction xs)
  case (Cons y ys)
  show ?case
  proof (cases "x = y")
    case True
    with Cons.prems have "x \<notin> set ys" by auto
    with True show ?thesis by (simp add: removeAll_id)
  qed (use Cons in auto)
qed simp

lemma listen_cookies_wake:
  assumes v: "visits_all (listen_order E)" and d: "fresh_below (listen_cookies s) n"
  shows "listen_cookies (wake_one E s) = listen_cookies s"
  using v
proof (cases rule: wake_one_cases [of E s])
  case (woken cookie)
  have "fresh_below (mset (map snd (suspended (listen_events s)))) n"
    using d unfolding listen_cookies_def fresh_below_def
    by (auto simp: count_union) (metis add_leE)
  then have "distinct (map snd (suspended (listen_events s)))" by (rule fresh_below_distinct)
  from removeAll_distinct_mset [OF this woken(1)] woken(2) show ?thesis
    by (simp add: listen_cookies_def)
qed simp


lemma listen_send_cookies [simp]: "listen_cookies (listen_send addr seg s) = listen_cookies s"
  by (simp add: listen_cookies_def listen_send_def)

lemma listen_cookies_queue [simp]: "listen_cookies (s\<lparr>listen_queue := q\<rparr>) = listen_cookies s"
  by (simp add: listen_cookies_def)

lemma listen_cookies_segment:
  assumes "visits_all (listen_order E)" and "fresh_below (listen_cookies s) n"
  shows "listen_cookies (listen_on_segment E addr seg s) = listen_cookies s"
  using assms by (simp add: listen_on_segment_def listen_cookies_wake)

lemma wake_one_next [simp]:
  "next_cookie (listen_events (wake_one E s)) = next_cookie (listen_events s)"
  by (simp add: wake_one_def split: list.split)

lemma listen_on_segment_next [simp]:
  "next_cookie (listen_events (listen_on_segment E addr seg s)) = next_cookie (listen_events s)"
  by (simp add: listen_on_segment_def listen_send_def)

lemma listen_accept_cases:
  assumes "listen_accept E f s = Some (r, s')"
  obtains (closed) "\<not> listen_open s" "r = Err ConnectionClosing" "s' = s"
  | (accepted) addr seg rest c where "listen_open s" "listen_queue s = (addr, seg) # rest"
      "s' = s\<lparr>listen_queue := rest\<rparr>" "r = Ok (addr, c)"
      "on_segment E seg (enter_state E ConnectionState.Listen
         ((Connection_new addr (f (s\<lparr>listen_queue := rest\<rparr>)))\<lparr>options := listen_options s\<rparr>)) = Some c"
  | (waits) "listen_open s" "listen_queue s = []"
      "r = Err (RetryAfter (next_cookie (listen_events s)))"
      "s' = s\<lparr>listen_events := (listen_events s)\<lparr>next_cookie := next_cookie (listen_events s) + 1,
         suspended := hash_insert ((), next_cookie (listen_events s)) (suspended (listen_events s))\<rparr>\<rparr>"
      "\<not> (debug_assertions E \<and> 2 ^ 64 \<le> unat (next_cookie (listen_events s)) + 1)"
  using assms
  by (auto simp: listen_accept_def Let_def bind_eq_Some_conv return_retry_after_def
      new_cookie_eq_Some set_state_not_closing split: if_splits list.splits)

interpretation listener: cookie_accounting "\<lambda>E. visits_all (listen_order E)" debug_assertions
  listen_step listen_cookies "\<lambda>s. next_cookie (listen_events s)"
proof (unfold_locales, goal_cases)
  case (1 E x s r s')
  show ?case
  proof (cases x)
    case (Accept f)
    with 1(2) obtain q where "listen_accept E f s = Some (q, s')" and r: "r = map_sum id Some q"
      by (auto simp: apfst_def)
    then show ?thesis
    proof (cases rule: listen_accept_cases)
      case waits
      then have "next_cookie (listen_events s) \<notin># listen_cookies s"
        using 1(3) by (auto simp: fresh_below_def)
      then have "((), next_cookie (listen_events s)) \<notin> set (suspended (listen_events s))"
        by (force simp: listen_cookies_def)
      with waits r show ?thesis by (simp add: listen_cookies_def hash_insert_def)
    qed (use r in simp_all)
  qed (use 1 in \<open>auto simp: listen_cookies_segment listen_cookies_close\<close>)
next
  case (2 E x s r s')
  show ?case
  proof (cases x)
    case (Accept f)
    with 2 obtain q where "listen_accept E f s = Some (q, s')" and r: "r = map_sum id Some q"
      by (auto simp: apfst_def)
    then show ?thesis
      by (cases rule: listen_accept_cases) (use r in \<open>auto simp: not_le\<close>)
  qed (use 2 in auto)
qed

section \<open>The backlog\<close>

definition listen_wf :: "('a, 't) ListenSocket \<Rightarrow> bool" where
  "listen_wf s \<longleftrightarrow> length (listen_queue s) \<le> backlog s \<and> 1 \<le> backlog s \<and>
     (\<forall>(addr, seg) \<in> set (listen_queue s). flags_contains (flags seg) SYN \<and>
        \<not> flags_contains (flags seg) ACK \<and> \<not> flags_contains (flags seg) RST) \<and>
     (\<not> listen_open s \<longrightarrow> listen_queue s = [] \<and> suspended (listen_events s) = [])"

lemma wake_one_frame [simp]:
  "listen_queue (wake_one E s) = listen_queue s" "backlog (wake_one E s) = backlog s"
  "listen_open (wake_one E s) = listen_open s" "listen_options (wake_one E s) = listen_options s"
  by (simp_all add: wake_one_def split: list.split)

lemma listen_step_wf:
  assumes H: "listen_step E x s = Some (r, s')" and wf: "listen_wf s"
  shows "listen_wf s'"
proof (cases x)
  case (Accept f)
  with H obtain q where "listen_accept E f s = Some (q, s')" by (auto simp: apfst_def)
  then show ?thesis
    by (cases rule: listen_accept_cases) (use wf in \<open>auto simp: listen_wf_def\<close>)
next
  case (ListenSegment addr seg)
  with H have s': "s' = listen_on_segment E addr seg s" by simp
  then show ?thesis
    using wf by (auto simp: listen_on_segment_def listen_wf_def listen_send_def)
qed (use H wf in \<open>auto simp: listen_wf_def\<close>)


section \<open>Properties\<close>

text \<open>
  C27: whatever accept calls, segments and closes a listening socket sees, its backlog never
  holds more than the limit it was created with (at least one), it holds only SYN segments
  without ACK or RST, and it is empty once the socket is closed.
\<close>

theorem backlog_holds_only_syns:
  assumes "listener.run E xs (call_listen b h) = Some (rs, s)"
  shows "length (listen_queue s) \<le> max b 1 \<and>
    (\<forall>(addr, seg) \<in> set (listen_queue s). flags_contains (flags seg) SYN \<and>
       \<not> flags_contains (flags seg) ACK \<and> \<not> flags_contains (flags seg) RST) \<and>
    (\<not> listen_open s \<longrightarrow> listen_queue s = [])"
proof -
  have step: "listen_wf s' \<and> backlog s' = max b 1"
    if "listen_step E x s = Some (r, s')" and "listen_wf s \<and> backlog s = max b 1" for x s r s'
  proof -
    have "backlog s' = backlog s"
      using that(1)
    proof (cases x)
      case (Accept f)
      with that(1) obtain q where "listen_accept E f s = Some (q, s')" by (auto simp: apfst_def)
      then show ?thesis by (cases rule: listen_accept_cases) simp_all
    qed (auto simp: listen_on_segment_def listen_send_def)
    with that listen_step_wf show ?thesis by auto
  qed
  have "listen_wf s \<and> backlog s = max b 1"
  proof (rule listener.run_invariant [OF assms, where P = "\<lambda>s. listen_wf s \<and> backlog s = max b 1"])
    show "listen_wf (call_listen b h) \<and> backlog (call_listen b h) = max b 1"
      by (simp add: listen_wf_def call_listen_def)
  qed (rule step)
  then show ?thesis by (auto simp: listen_wf_def)
qed

definition demo_syn :: SegmentMeta where
  "demo_syn = \<lparr>seqn = 0xFFFFFFFF, ackn = 0, window = 4096, flags = SYN, data = []\<rparr>"

definition demo_listener :: "(nat, nat) ListenSocket" where
  "demo_listener = (call_listen 0 [])\<lparr>listen_queue := [(7, demo_syn)],
     listen_user_data := [Send 8 \<lparr>seqn = 1, ackn = 0, window = 0, flags = flags_or ACK RST, data = []\<rparr>]\<rparr>"

lemma demo_listener_run:
  "listener.run (demo_env True) [ListenSegment 7 demo_syn, ListenSegment 8 demo_syn] (call_listen 0 [])
     = Some ([Ok None, Ok None], demo_listener)"
  by (simp add: demo_syn_def demo_listener_def listen_on_segment_def listen_send_def wake_one_def
      call_listen_def refuse_reply_def flag_simps Events_new_def wrapping_add_def SeqN_ZERO_def)

theorem backlog_holds_only_syns_witness:
  "length (listen_queue demo_listener) \<le> max 0 1 \<and> listen_queue demo_listener \<noteq> []"
  using backlog_holds_only_syns [OF demo_listener_run] by (simp add: demo_listener_def)

text \<open>
  C29: closing a listening socket leaves no one waiting: every suspended accept call is told
  \<open>ListenClosed\<close>, once, every queued peer gets an RST at the number it expects, in the order
  they came, and from then on every segment but an RST is answered with an RST and nothing
  is queued.
\<close>

theorem closing_a_listener_leaves_no_one_waiting:
  assumes "visits_all (listen_order E)"
  shows "suspended (listen_events (listen_close E s)) = [] \<and> listen_queue (listen_close E s) = [] \<and>
    (\<exists>news. delivered (listen_user_data (listen_close E s)) = delivered (listen_user_data s) @ news \<and>
       mset news = mset (map (\<lambda>x. (snd x, Err ListenClosed)) (suspended (listen_events s)))) \<and>
    sent_segments (listen_user_data (listen_close E s)) = sent_segments (listen_user_data s) @
      map (\<lambda>(addr, seg). (addr, rst_reply seg)) (listen_queue s) \<and>
    listen_on_segment E addr seg (listen_close E s) =
      (if flags_contains (flags seg) RST then listen_close E s
       else listen_send addr (rst_reply seg) (listen_close E s))"
proof -
  let ?news = "map (\<lambda>x. (snd x, Err ListenClosed :: Error + unit)) (listen_order E (suspended (listen_events s)))"
  have "mset ?news = mset (map (\<lambda>x. (snd x, Err ListenClosed)) (suspended (listen_events s)))"
    using assms by (simp add: visits_all_def)
  then show ?thesis
    by (auto simp: listen_close_history comp_def listen_on_segment_def intro!: exI [of _ ?news])
qed

theorem closing_a_listener_leaves_no_one_waiting_witness:
  "sent_segments (listen_user_data (listen_close (demo_env True) demo_listener)) =
     [(8, \<lparr>seqn = 1, ackn = 0, window = 0, flags = flags_or ACK RST, data = []\<rparr>),
      (7, \<lparr>seqn = 0, ackn = 0, window = 0, flags = RST, data = []\<rparr>)]"
  using closing_a_listener_leaves_no_one_waiting [of "demo_env True" demo_listener 0 demo_syn]
  by (simp add: demo_listener_def demo_syn_def rst_reply_def SeqN_ZERO_def)

text \<open>The SYN-ACK an accepted connection sends: \<open>h\<close> is its user data's history.\<close>

definition syn_ack_reply :: "('a, 't) env \<Rightarrow> ('a, 't) history \<Rightarrow> SegmentMeta \<Rightarrow> SegmentMeta" where
  "syn_ack_reply E h seg = \<lparr>seqn = new_seqn E h, ackn = seqn seg + 1, window = INITIAL_WINDOW_SIZE,
     flags = flags_or SYN ACK, data = []\<rparr>"

text \<open>
  C28: accepting the first queued SYN gives a connection in \<open>SynReceived\<close> to its sender, with
  the listener's options, that has sent one segment: the SYN-ACK that acknowledges the SYN
  from a fresh initial sequence number, kept for retransmission. A SYN that carries data
  panics the accept call instead, in every build.
\<close>

theorem accept_answers_with_a_syn_ack:
  assumes "listen_open s" and "listen_queue s = (addr, seg) # rest"
    and "flags_contains (flags seg) SYN" "\<not> flags_contains (flags seg) ACK" "\<not> flags_contains (flags seg) RST"
  shows "if data seg \<noteq> [] then listen_accept E f s = None
    else \<exists>c. listen_accept E f s = Some (Ok (addr, c), s\<lparr>listen_queue := rest\<rparr>) \<and>
      connection_state c = SynReceived \<and> remote c = addr \<and> options c = listen_options s \<and>
      sent_segments (user_data c) = sent_segments (f (s\<lparr>listen_queue := rest\<rparr>)) @
        [(addr, syn_ack_reply E (f (s\<lparr>listen_queue := rest\<rparr>)) seg)] \<and>
      re_tx (tx_buf c) = [syn_ack_reply E (f (s\<lparr>listen_queue := rest\<rparr>)) seg] \<and>
      tx_window (tx_buf c) = window seg"
proof -
  let ?h = "f (s\<lparr>listen_queue := rest\<rparr>)" and ?reply = "syn_ack_reply E (f (s\<lparr>listen_queue := rest\<rparr>)) seg"
  have w: "curr_window (rx_init (seqn seg) RxBuffer_default) = INITIAL_WINDOW_SIZE"
    by (simp add: word_unat_eq_iff unat_curr_window)
  have len: "seg_len ?reply = 1" by (simp add: seg_len_def flag_simps syn_ack_reply_def)
  have q: "seqn ?reply = new_seqn E ?h" by (simp add: syn_ack_reply_def)
  note F = first_segment [OF tx_default_simps(3) q len]
  show ?thesis
    using assms w F(2)
    by (simp add: listen_accept_def set_state_not_closing on_segment_def on_segment_listen_def Let_def
        user_new_seqn_def enter_state_def out_clear_def established_triggers_def SeqN_new_def
        history_simps syn_ack_reply_def wrapping_add_def)
qed

theorem accept_answers_with_a_syn_ack_witness:
  "\<exists>c. listen_accept (demo_env True) (\<lambda>_. []) demo_listener =
       Some (Ok (7, c), demo_listener\<lparr>listen_queue := []\<rparr>) \<and>
     sent_segments (user_data c) =
       [(7, \<lparr>seqn = 1000, ackn = 0, window = 4096, flags = flags_or SYN ACK, data = []\<rparr>)]"
  using accept_answers_with_a_syn_ack [of demo_listener 7 demo_syn "[]" "demo_env True" "\<lambda>_. []"]
  by (auto simp: demo_listener_def demo_syn_def call_listen_def flag_simps syn_ack_reply_def
      INITIAL_WINDOW_SIZE_def)

lemma call_listen_cookies [simp]:
  "listen_cookies (call_listen b []) = {#}" "next_cookie (listen_events (call_listen b h)) = 0"
  by (simp_all add: listen_cookies_def call_listen_def Events_new_def Cookie_ZERO_def)

text \<open>
  C30: the accept calls of a listening socket are accounted for: in any run (of fewer than
  \<open>2 ^ 64\<close> operations in a release build) the cookies handed out are distinct, and each is
  either still waiting or has been delivered exactly once.
\<close>

theorem accept_cookies_are_delivered_once:
  assumes "visits_all (listen_order E)" and "debug_assertions E \<or> length xs < 2 ^ 64"
    and "listener.run E xs (call_listen b []) = Some (rs, s)"
  shows "mset (map snd (suspended (listen_events s))) + mset (map fst (delivered (listen_user_data s)))
      = mset (concat (map issued rs)) \<and> distinct (concat (map issued rs))"
proof -
  have "listen_cookies s = mset (concat (map issued rs)) \<and>
      fresh_below (listen_cookies s) (next_cookie (listen_events s))"
    using listener.run_accounts [of E xs "call_listen b []" rs s] assms by auto
  with fresh_below_distinct show ?thesis
    unfolding listen_cookies_def by metis
qed

theorem accept_cookies_are_delivered_once_witness:
  "\<exists>s. listener.run (demo_env True) [Accept (\<lambda>_. []), ListenSegment 7 demo_syn] (call_listen 0 [])
       = Some ([Err (RetryAfter 0), Ok None], s) \<and>
     mset (map snd (suspended (listen_events s))) + mset (map fst (delivered (listen_user_data s))) = {#0#}"
proof -
  obtain s where s: "listener.run (demo_env True) [Accept (\<lambda>_. []), ListenSegment 7 demo_syn] (call_listen 0 [])
       = Some ([Err (RetryAfter 0), Ok None], s)"
    by (simp add: listen_accept_def call_listen_def return_retry_after_def new_cookie_def cookie_next_def
        ovf_add_def Let_def Events_new_def Cookie_ZERO_def apfst_def)
  from accept_cookies_are_delivered_once [OF _ _ s] s show ?thesis by auto
qed

end
