(* ===== verification/Tcp_Stream.thy ===== *)
theory Tcp_Stream
  imports Tcp_Preserve
begin

text \<open>
  What a connection sends of the bytes its user hands it. \<open>sends iss W c\<close> relates a connection
  to its initial sequence number and to the stream \<open>W\<close> of all bytes accepted by \<open>send\<close> so far:
  every segment sent or kept for retransmission is a piece of that stream at the right offset,
  and a FIN ends it. This theory proves it of the internal steps and the segment handler,
  \<open>Tcp_Sender\<close> of the user's calls, the clock and the whole machine.
\<close>

section \<open>Initial sequence numbers\<close>

text \<open>The initial sequence numbers a history asked for: one for each connection made.\<close>

fun initial_seqns :: "('a, 't) history \<Rightarrow> u32 list" where
  "initial_seqns [] = []"
| "initial_seqns (NewSeqn v # h) = v # initial_seqns h"
| "initial_seqns (_ # h) = initial_seqns h"

abbreviation isns :: "('a, 't) Connection \<Rightarrow> u32 list" where
  "isns c \<equiv> initial_seqns (user_data c)"

lemma initial_seqns_append [simp]: "initial_seqns (h @ h') = initial_seqns h @ initial_seqns h'"
  by (induction h rule: initial_seqns.induct) simp_all

lemma initial_seqns_events [simp]: "initial_seqns (map (\<lambda>x. Event (f x) r) xs) = []"
  by (induction xs) simp_all

lemma isns_simps [simp]:
  "isns (user_send seg c) = isns c" "isns (trigger_event E f r c) = isns c"
  "isns (set_timer_re_tx E d c) = isns c" "isns (set_timer_timewait E d c) = isns c"
  "isns (set_timer_usertime E d c) = isns c"
  by (simp_all add: history_simps)

lemma isns_compound [simp]:
  "isns (established_triggers E c) = isns c" "isns (clear E c) = isns c" "isns (reset E c) = isns c"
  "isns (enter_state E s c) = isns c" "isns (clear_re_tx_range E a c) = isns c"
  "isns (send_ack_emit E fl bs c) = isns c"
  by (simp_all add: established_triggers_def clear_def reset_def enter_state_def
      clear_re_tx_range_def send_ack_emit_def Let_def split: ConnectionState.split)

lemma isns_grow:
  assumes "evolves E c c'"
  shows "\<exists>d. isns c' = isns c @ d"
  using assms by (auto simp: evolves_def)

lemma isns_step:
  assumes "conn_step E x c = Some (r, c')"
  shows "\<exists>d. isns c' = isns c @ d"
  using accounted_conn_step [OF assms] by (auto simp: accounted_def dest: isns_grow)

section \<open>Segments of a stream\<close>

definition plain :: "SegmentMeta \<Rightarrow> bool" where
  "plain seg \<longleftrightarrow> data seg = [] \<and> \<not> flags_contains (flags seg) SYN \<and> \<not> flags_contains (flags seg) FIN"

text \<open>
  The segment belongs to the connection with initial number \<open>iss\<close> and the stream \<open>W\<close>: the SYN
  takes the first number, the byte at offset \<open>k\<close> the number \<open>iss + 1 + k\<close>, the FIN the one after
  the last byte.
\<close>

definition seg_ok :: "SeqN \<Rightarrow> u8 list \<Rightarrow> SegmentMeta \<Rightarrow> bool" where
  "seg_ok iss W seg \<longleftrightarrow>
     (flags_contains (flags seg) SYN \<longrightarrow> seqn seg = iss \<and> data seg = []) \<and>
     (data seg \<noteq> [] \<longrightarrow> (\<exists>off. seqn seg = iss + 1 + as_u32 off \<and> off + length (data seg) \<le> length W \<and>
        data seg = take (length (data seg)) (drop off W))) \<and>
     (flags_contains (flags seg) FIN \<longrightarrow>
        seqn seg + as_u32 (length (data seg)) = iss + 1 + as_u32 (length W))"

definition emitted :: "('a, 't) Connection \<Rightarrow> SegmentMeta set" where
  "emitted c = snd ` set (sent_segments (user_data c)) \<union> set (re_tx (tx_buf c))"

definition fin_emitted :: "('a, 't) Connection \<Rightarrow> bool" where
  "fin_emitted c \<longleftrightarrow> (\<exists>seg \<in> emitted c. flags_contains (flags seg) FIN)"

definition sends :: "SeqN \<Rightarrow> u8 list \<Rightarrow> ('a, 't) Connection \<Rightarrow> bool" where
  "sends iss W c \<longleftrightarrow>
     (\<forall>seg \<in> emitted c. seg_ok iss W seg) \<and>
     (fin_emitted c \<longrightarrow> quiet (connection_state c) \<or> tx_fin_marked c) \<and>
     (\<not> quiet (connection_state c) \<longrightarrow> (\<exists>p. W = p @ tx_stream c \<and>
        (state_tx (connection_state c) = Open \<longrightarrow> tx_next (tx_buf c) = iss + 1 + as_u32 (length p))))"

lemma plain_seg_ok: "plain seg \<Longrightarrow> seg_ok iss W seg"
  by (simp add: plain_def seg_ok_def)

lemma plain_flags [simp]:
  "plain \<lparr>seqn = s, ackn = a, window = w, flags = ACK, data = []\<rparr>"
  "plain \<lparr>seqn = s, ackn = a, window = w, flags = RST, data = []\<rparr>"
  "plain \<lparr>seqn = s, ackn = a, window = w, flags = flags_or RST ACK, data = []\<rparr>"
  by (simp_all add: plain_def flag_simps flag_bit_defs)

lemma seg_ok_grow:
  assumes "seg_ok iss W seg" and "\<not> flags_contains (flags seg) FIN"
  shows "seg_ok iss (W @ bytes) seg"
  using assms by (fastforce simp: seg_ok_def)

section \<open>Steps that send nothing new\<close>

lemma emitted_simps [simp]:
  "emitted (user_send seg c) = insert seg (emitted c)"
  "emitted (trigger_event E f r c) = emitted c"
  "emitted (set_timer_re_tx E d c) = emitted c"
  "emitted (set_timer_timewait E d c) = emitted c"
  "emitted (set_timer_usertime E d c) = emitted c"
  "emitted (enter_state E s c) = emitted c"
  by (simp_all add: emitted_def history_simps)

lemma emitted_updates [simp]:
  "emitted (c\<lparr>connection_state := s\<rparr>) = emitted c" "emitted (c\<lparr>rx_buf := b\<rparr>) = emitted c"
  "emitted (c\<lparr>timers := tm\<rparr>) = emitted c" "emitted (c\<lparr>exp_backoff := k\<rparr>) = emitted c"
  "emitted (c\<lparr>congestion_window := w\<rparr>) = emitted c" "emitted (c\<lparr>events := ev\<rparr>) = emitted c"
  "emitted (c\<lparr>tx_buf := (tx_buf c)\<lparr>tx_window := w\<rparr>\<rparr>) = emitted c"
  "emitted (c\<lparr>congestion_window := k', tx_buf := (tx_buf c)\<lparr>tx_window := w\<rparr>\<rparr>) = emitted c"
  "emitted (c\<lparr>tx_buf := (tx_buf c)\<lparr>unack := u\<rparr>\<rparr>) = emitted c"
  "emitted (c\<lparr>tx_buf := (tx_buf c)\<lparr>tx_queue := q\<rparr>\<rparr>) = emitted c"
  by (simp_all add: emitted_def)

lemma emitted_clear: "emitted (clear E c) \<subseteq> emitted c" "emitted (reset E c) \<subseteq> emitted c"
  by (auto simp: emitted_def)

text \<open>
  A step that at most drops segments and adds plain ones, keeps the queue and does not reopen
  the transmit channel.
\<close>

lemma sends_quietly:
  assumes "sends iss W c" and "emitted c' \<subseteq> emitted c \<union> Collect plain"
    and "\<not> quiet (connection_state c')"
    and "\<not> quiet (connection_state c)" and "tx_stream c' = tx_stream c" "tx_fin_marked c' = tx_fin_marked c"
    and "state_tx (connection_state c') = Open \<longrightarrow>
      state_tx (connection_state c) = Open \<and> tx_next (tx_buf c') = tx_next (tx_buf c)"
  shows "sends iss W c'"
proof -
  have "fin_emitted c' \<longrightarrow> fin_emitted c"
    using assms(2) by (auto simp: fin_emitted_def plain_def)
  then show ?thesis
    using assms plain_seg_ok unfolding sends_def by (metis (mono_tags, lifting) Un_iff mem_Collect_eq subsetD)
qed

lemma sends_end:
  assumes "sends iss W c" and "emitted c' \<subseteq> emitted c \<union> Collect plain" and "quiet (connection_state c')"
  shows "sends iss W c'"
  using assms plain_seg_ok by (auto simp: sends_def)

lemma state_tx_enter [simp]:
  "state_tx (ConnectionState.Established t r cc ca) = t" "state_tx FULLY_OPEN = Open"
  by (simp_all add: state_tx_def FULLY_OPEN_def)

lemma not_quiet_FULLY_OPEN [simp]: "\<not> quiet FULLY_OPEN"
  by (simp add: FULLY_OPEN_def)

lemma sends_enter_state:
  assumes "sends iss W c" and "\<not> quiet s" "\<not> quiet (connection_state c)"
    and "state_tx s = Open \<longrightarrow> state_tx (connection_state c) = Open"
  shows "sends iss W (enter_state E s c)"
  by (rule sends_quietly [OF assms(1)]) (use assms in auto)

lemma sends_timewait:
  assumes "sends iss W c" and "\<not> quiet (connection_state c)"
  shows "sends iss W (set_timer_timewait E d ((enter_state E TimeWait c)\<lparr>timers := tm\<rparr>))"
  by (rule sends_quietly [OF assms(1)]) (use assms in auto)

lemma sends_set_state:
  assumes "set_state E (ConnectionState.Established t r cc ca) c = Some c'" and "sends iss W c"
    and "\<not> quiet (connection_state c)" and "t = Open \<longrightarrow> state_tx (connection_state c) = Open"
  shows "sends iss W c'"
proof -
  let ?s = "ConnectionState.Established t r cc ca"
  have e: "sends iss W (enter_state E ?s c)" using assms(2-) by (intro sends_enter_state) auto
  from assms(1) show ?thesis
  proof (rule set_state_cases)
    assume "c' = set_timer_timewait E (MAX_SEGMENT_LIFETIME * 2)
            ((enter_state E TimeWait (enter_state E ?s c))\<lparr>timers := Timers_default\<rparr>)"
    with sends_timewait [OF e] show ?thesis by simp
  next
    assume c': "c' = clear E (enter_state E ?s c)"
    show ?thesis
      by (rule sends_end [OF e]) (use emitted_clear(1) [of E "enter_state E ?s c"] in \<open>auto simp: c'\<close>)
  qed (use e in auto)
qed

section \<open>Sending\<close>

lemma tx_next_on_send: "tx_next (on_send seg tx) = tx_next tx + as_u32 (seg_len seg)"
  by (simp add: on_send_def Let_def wrapping_add_def seq_size_of_nat)

lemma re_tx_on_send: "set (re_tx (on_send seg tx)) \<subseteq> insert seg (set (re_tx tx))"
  by (auto simp: on_send_def Let_def)

lemma ack_segment_ok:
  assumes "sends iss W c" and can: "can_ack c" and st: "\<not> quiet (connection_state c)"
  shows "seg_ok iss W (ack_segment c)"
proof -
  let ?s = "ack_segment c"
  obtain p where p: "W = p @ tx_stream c"
    "state_tx (connection_state c) = Open \<longrightarrow> tx_next (tx_buf c) = iss + 1 + as_u32 (length p)"
    using assms by (auto simp: sends_def)
  have d: "data ?s = take (ack_limit c) (tx_stream c)" "flags_contains (flags ?s) FIN = ack_fin c"
    "\<not> flags_contains (flags ?s) SYN"
    by (simp_all add: ack_segment_def flag_simps)
  have "\<exists>off. seqn ?s = iss + 1 + as_u32 off \<and> off + length (data ?s) \<le> length W \<and>
        data ?s = take (length (data ?s)) (drop off W)" if "data ?s \<noteq> []"
  proof (rule exI [of _ "length p"])
    have "state_tx (connection_state c) = Open" using that d can by (auto simp: can_ack_def)
    with p d show "seqn ?s = iss + 1 + as_u32 (length p) \<and> length p + length (data ?s) \<le> length W \<and>
        data ?s = take (length (data ?s)) (drop (length p) W)"
      by (simp add: min_def)
  qed
  moreover have "seqn ?s + as_u32 (length (data ?s)) = iss + 1 + as_u32 (length W)" if "ack_fin c"
    using that d p by (simp add: ack_fin_def)
  ultimately show ?thesis using d by (auto simp: seg_ok_def)
qed

lemma sends_send_ack:
  assumes H: "send_ack E c = Some c'" and W: "sends iss W c" and can: "can_ack c"
    and st: "\<not> quiet (connection_state c)"
  shows "sends iss W c'"
proof -
  let ?seg = "ack_segment c"
  obtain c'' q where S: "send_ack E c = Some c''"
      "connection_state c'' = (if ack_fin c then fin_state (connection_state c) else connection_state c)"
      "contents q = drop (ack_limit c) (tx_stream c)" "fin q = tx_fin_marked c"
      "tx_buf c'' = (if ack_duplicate c then tx_buf c else on_send ?seg (tx_buf c))\<lparr>tx_queue := q\<rparr>"
      "sent_segments (user_data c'') = sent_segments (user_data c) @
           (if ack_duplicate c then [] else [(remote c, ?seg)])"
    by (rule send_ack_spec [OF can, of E])
  have c'': "c'' = c'" using S(1) H by simp
  obtain p where p: "W = p @ tx_stream c"
    "state_tx (connection_state c) = Open \<longrightarrow> tx_next (tx_buf c) = iss + 1 + as_u32 (length p)"
    using W st by (auto simp: sends_def)
  have dz: "ack_duplicate c \<longrightarrow> seg_len ?seg = 0" using not_duplicate [of c] by blast
  have em: "emitted c' \<subseteq> insert ?seg (emitted c)"
    using S(5,6) re_tx_on_send [of ?seg "tx_buf c"] by (auto simp: c'' emitted_def split: if_splits)
  have fin: "flags_contains (flags ?seg) FIN = ack_fin c"
    by (simp add: ack_segment_def flag_simps)
  have "fin_emitted c' \<longrightarrow> fin_emitted c \<or> ack_fin c"
    using em fin by (auto simp: fin_emitted_def)
  then have "fin_emitted c' \<longrightarrow> tx_fin_marked c'"
    using W st S(4,5) by (auto simp: c'' sends_def ack_fin_def)
  moreover have "tx_next (tx_buf c') = iss + 1 + as_u32 (length (p @ take (ack_limit c) (tx_stream c)))"
    if o: "state_tx (connection_state c') = Open"
  proof -
    have n: "\<not> ack_fin c" using o S(2) by (auto simp: c'' fin_state_def state_tx_def split: ConnectionState.splits)
    then have "state_tx (connection_state c) = Open" using o S(2) by (simp add: c'')
    moreover have "seg_len ?seg = length (take (ack_limit c) (tx_stream c))"
      using n by (simp only: seg_len_ack_segment of_bool_eq add_0_right)
    moreover have "tx_next (tx_buf c') = tx_next (tx_buf c) + as_u32 (seg_len ?seg)"
      using S(5) dz by (cases "ack_duplicate c") (simp_all add: c'' tx_next_on_send)
    ultimately show ?thesis using p(2) by (simp add: add.assoc del: length_take)
  qed
  moreover have "W = (p @ take (ack_limit c) (tx_stream c)) @ tx_stream c'"
    using p S(3,5) by (simp add: c'')
  ultimately show ?thesis
    using em ack_segment_ok [OF W can st] W unfolding sends_def by blast
qed

lemma write_tx_sends:
  assumes H: "write_tx bytes c = Some c'" and W: "sends iss W c" and ne: "bytes \<noteq> []"
    and st: "\<not> quiet (connection_state c)"
  shows "sends iss (W @ bytes) c'" and "\<not> fin_emitted c"
proof -
  from H obtain q where c': "c' = c\<lparr>tx_buf := (tx_buf c)\<lparr>tx_queue := q\<rparr>\<rparr>"
    and q: "contents q = tx_stream c @ bytes" "fin q = tx_fin_marked c" "\<not> fin q"
    using ne by (auto elim: write_tx_frame)
  show nf: "\<not> fin_emitted c" using W q st by (auto simp: sends_def)
  have em: "emitted c' = emitted c" by (simp add: c' emitted_def)
  show "sends iss (W @ bytes) c'"
    using W nf st q seg_ok_grow [of iss W _ bytes] em
    unfolding sends_def fin_emitted_def by (auto simp: c')
qed

section \<open>Incoming segments\<close>

lemma emitted_clear_re_tx_range: "emitted (clear_re_tx_range E a c) \<subseteq> emitted c"
proof -
  have "set (clear_re_tx_loop a segs) \<subseteq> set segs" for segs
    by (induction segs) auto
  then show ?thesis by (auto simp: emitted_def)
qed

lemma on_new_ack_frame:
  assumes H: "on_new_ack E seg c = Some c'"
  shows "emitted c' \<subseteq> emitted c" "connection_state c' = connection_state c" "rx_buf c' = rx_buf c"
    "tx_queue (tx_buf c') = tx_queue (tx_buf c)" "tx_next (tx_buf c') = tx_next (tx_buf c)"
proof -
  from H obtain c0 where c0: "window_update (debug_assertions E) seg c = Some c0"
    by (auto simp: on_new_ack_def bind_eq_Some_conv)
  from c0 obtain w k where k: "c0 = c\<lparr>congestion_window := k, tx_buf := (tx_buf c)\<lparr>tx_window := w\<rparr>\<rparr>"
    by (rule window_update_frame)
  have c': "c' =
      (let c = c0;
           c = trigger_event E (readable (rx_available_bytes (rx_buf c))) (Ok ()) c;
           c = clear_re_tx_range E (ackn seg) c;
           c = c\<lparr>tx_buf := (tx_buf c)\<lparr>unack := ackn seg\<rparr>\<rparr>;
           c = c\<lparr>exp_backoff := 1\<rparr>;
           c = (if re_tx (tx_buf c) = [] then c\<lparr>timers := (timers c)\<lparr>timer_re_tx := None\<rparr>\<rparr>
                 else set_timer_re_tx E (rto (timings c)) c)
       in trigger_event E (acknowledged_by (ackn seg)) (Ok ()) c)"
    using H by (simp only: on_new_ack_def c0 bind.bind_lunit option.inject Let_def)
  have "emitted c' \<subseteq> emitted c0" unfolding c' Let_def
    using emitted_clear_re_tx_range
      [of E "ackn seg" "trigger_event E (readable (rx_available_bytes (rx_buf c0))) (Ok ()) c0"]
    by (simp del: clear_re_tx_range_frame(5))
  then show "emitted c' \<subseteq> emitted c" by (simp add: k)
  show "connection_state c' = connection_state c" "rx_buf c' = rx_buf c"
    "tx_queue (tx_buf c') = tx_queue (tx_buf c)" "tx_next (tx_buf c') = tx_next (tx_buf c)"
    unfolding c' Let_def by (simp_all add: k)
qed

lemma sends_plain_user_send:
  "sends iss W c \<Longrightarrow> plain seg \<Longrightarrow> sends iss W (user_send seg c)"
  by (cases "quiet (connection_state c)")
    (auto intro: sends_end [of iss W c] sends_quietly [of iss W c])

lemma sends_trigger: "sends iss W c \<Longrightarrow> sends iss W (trigger_event E f r c)"
  by (cases "quiet (connection_state c)")
    (auto intro: sends_end [of iss W c] sends_quietly [of iss W c])

lemma sends_rx_buf [simp]: "sends iss W (c\<lparr>rx_buf := b\<rparr>) = sends iss W c"
  by (simp add: sends_def fin_emitted_def)

lemma sends_timers [simp]: "sends iss W (c\<lparr>timers := tm\<rparr>) = sends iss W c"
  by (simp add: sends_def fin_emitted_def)

lemma sends_events [simp]: "sends iss W (c\<lparr>events := ev\<rparr>) = sends iss W c"
  by (simp add: sends_def fin_emitted_def)

lemma sends_clear: "sends iss W c \<Longrightarrow> sends iss W (clear E c)"
  using emitted_clear(1) [of E c] by (auto intro: sends_end)

lemma sends_reset: "sends iss W c \<Longrightarrow> sends iss W (reset E c)"
  using emitted_clear(2) [of E c] by (auto intro: sends_end)

lemma sends_gone: "sends iss W c \<Longrightarrow> quiet s \<Longrightarrow> sends iss W (enter_state E s (clear E c))"
  by (rule sends_end [OF sends_clear [of iss W c E]]) auto

lemma sends_on_rst: "on_rst E c = Some c' \<Longrightarrow> sends iss W c \<Longrightarrow> sends iss W c'"
  by (auto simp: on_rst_def set_state_not_closing split: ConnectionState.splits
      intro: sends_gone sends_trigger)

lemma sends_on_syn: "on_syn E c = Some c' \<Longrightarrow> sends iss W c \<Longrightarrow> sends iss W c'"
  by (auto simp: on_syn_def set_state_not_closing Let_def
      intro!: sends_gone sends_plain_user_send sends_trigger)

lemma sends_on_fin:
  assumes H: "on_fin E b c = Some c'" and W: "sends iss W c"
  shows "sends iss W c'"
proof (cases "connection_state c")
  case TimeWait
  have "sends iss W (set_timer_timewait E d ((trigger_event E f r c)\<lparr>timers := tm\<rparr>))" for d f r tm
    by (rule sends_quietly [OF sends_trigger [OF W, of E f r]]) (use TimeWait in auto)
  with H TimeWait W show ?thesis
    by (auto simp: on_fin_def Let_def split: if_splits)
next
  case SynReceived
  with H have "set_state E (ConnectionState.Established Open Fin False False)
      (trigger_event E is_Recv (Ok ()) c) = Some c'"
    by (simp add: on_fin_def)
  then show ?thesis by (rule sends_set_state) (use SynReceived in \<open>simp_all add: sends_trigger [OF W]\<close>)
next
  case (Established t r cc ca)
  with H have "set_state E (ConnectionState.Established t Fin cc ca)
      (trigger_event E is_Recv (Ok ()) c) = Some c'"
    by (cases r) (simp_all add: on_fin_def)
  then show ?thesis by (rule sends_set_state) (use Established in \<open>simp_all add: sends_trigger [OF W]\<close>)
qed (use H sends_trigger [OF W, of E] in \<open>simp_all add: on_fin_def, blast+\<close>)

lemma sends_store_segment:
  assumes H: "store_segment E seg c = Some (go_on, c')" and W: "sends iss W c"
    and can: "seqn seg = ackd (rx_buf c) \<longrightarrow> can_ack c \<and> \<not> quiet (connection_state c)"
  shows "sends iss W c'"
proof (cases "seqn seg = ackd (rx_buf c)")
  case True
  with H obtain b where "send_ack E (c\<lparr>rx_buf := b\<rparr>) = Some c'"
    by (auto simp: store_segment_def bind_eq_Some_conv)
  then show ?thesis
    by (rule sends_send_ack) (use W can True in \<open>simp_all add: can_ack_def\<close>)
qed (use H W in \<open>auto simp: store_segment_def split: if_splits intro: sends_plain_user_send\<close>)

lemma sends_on_segment_closed:
  "on_segment_closed seg c = Some c' \<Longrightarrow> sends iss W c \<Longrightarrow> sends iss W c'"
  by (auto simp: on_segment_closed_def response_to_closed_def bind_eq_Some_conv split: if_splits
      intro: sends_plain_user_send)

lemma sends_on_ack_of_fin:
  assumes "on_ack_of_fin E seg c = Some c'" and "sends iss W c"
  shows "sends iss W c'"
  using assms(1)
  by (rule on_ack_of_fin_cases) (use assms(2) in \<open>auto elim!: sends_set_state\<close>)

lemma sends_on_new_ack:
  assumes "on_new_ack E seg c = Some c'" and "sends iss W c"
  shows "sends iss W c'"
proof -
  note F = on_new_ack_frame [OF assms(1)]
  show ?thesis
  proof (cases "quiet (connection_state c)")
    case True
    with F show ?thesis by (intro sends_end [OF assms(2)]) auto
  next
    case False
    with F show ?thesis by (intro sends_quietly [OF assms(2)]) auto
  qed
qed

lemma sends_on_ack:
  assumes H: "on_ack E seg c = Some (go_on, c')" and W: "sends iss W c" and ok: "conn_ok False c"
    and st: "\<not> quiet (connection_state c)" "connection_state c \<noteq> SynSent"
    and room: "roomy c" and f: "fits seg (rx_buf c)" and d: "not_stray E seg c"
  shows "sends iss W c'"
  using H
proof (cases rule: on_ack_cases)
  case (valid c1 c2 c3)
  note c1 = open_stage [OF valid(2) ok st]
  then have "roomy c1" using room by (simp add: roomy_def)
  with acked_stage [OF valid(3)] c1 valid(1)
  have c2: "conn_ok False c2 \<and> connection_state c2 = connection_state c1 \<and> rx_buf c2 = rx_buf c1 \<and>
    unack (tx_buf c2) = ackn seg \<and> tx_next (tx_buf c2) = tx_next (tx_buf c1) \<and> roomy c2" by simp
  have c3: "conn_ok False c3 \<and> (connection_state c3 = ConnectionState.Closed \<or>
      \<not> quiet (connection_state c3) \<and> \<not> handshaking (connection_state c3))"
    using on_ack_of_fin_fits [OF valid(4), of "connection_state c"] c1 c2 f by auto
  have "sends iss W c1" using valid(2) W by (auto intro: sends_enter_state)
  then have "sends iss W c2" using valid(3) by (auto intro: sends_on_new_ack split: if_splits)
  then have S: "sends iss W c3" by (rule sends_on_ack_of_fin [OF valid(4)])
  have "seqn seg = ackd (rx_buf c3) \<longrightarrow> can_ack c3 \<and> \<not> quiet (connection_state c3)"
  proof (cases "connection_state c3 = ConnectionState.Closed")
    case True
    with c3 have "ackd (rx_buf c3) = 0" by (simp add: quiet_conn_ok)
    moreover have "debug_assertions E \<or> seqn seg \<noteq> 0"
      using closed_by_last_ack [OF valid(2) _ _ valid(4) True st(1)] c2 d by (auto simp: not_stray_def)
    ultimately show ?thesis using True valid(5) send_ack_closed [of E "c3\<lparr>rx_buf := b\<rparr>" c' for b]
      by (auto simp: store_segment_def bind_eq_Some_conv)
  qed (use c3 conn_ok_can_ack [of False c3] in auto)
  then show ?thesis by (rule sends_store_segment [OF valid(5) S])
qed (use W in simp)

lemma sends_window [simp]: "sends iss W (c\<lparr>tx_buf := (tx_buf c)\<lparr>tx_window := w\<rparr>\<rparr>) = sends iss W c"
  by (simp add: sends_def fin_emitted_def)

lemma sends_on_segment_synchronized:
  assumes H: "on_segment_synchronized E seg c = Some c'" and W: "sends iss W c" and ok: "conn_wf c"
    and st: "\<not> quiet (connection_state c)" "connection_state c \<noteq> SynSent"
    and room: "roomy c" and len: "seg_len seg < 2 ^ 32" and d: "not_stray E seg c"
  shows "sends iss W c'"
proof -
  define c0 where "c0 = c\<lparr>tx_buf := (tx_buf c)\<lparr>tx_window := min (window seg) (congestion_window c)\<rparr>\<rparr>"
  have ok0: "conn_wf c0" "\<not> quiet (connection_state c0)" "connection_state c0 \<noteq> SynSent"
    "rx_buf c0 = rx_buf c" "roomy c0" "not_stray E seg c0" and W0: "sends iss W c0"
    using ok st room W d by (simp_all add: c0_def roomy_def)
  have A: "sends iss W c1" if "on_ack E seg c0 = Some (go_on, c1)" "check_segment_seq_ok c seg" for go_on c1
    by (rule sends_on_ack [OF that(1) W0 ok0(1-3,5) _ ok0(6)])
      (use fits_accepted [OF ok that(2) len] ok0(4) in simp)
  from H c0_def st show ?thesis
  proof (cases rule: on_segment_synchronized_cases)
    case unacceptable
    with W show ?thesis by (auto simp: on_unacceptable_def intro!: sends_plain_user_send)
  next
    case rst
    show ?thesis by (rule sends_on_rst [OF rst(2) W0])
  next
    case syn
    show ?thesis by (rule sends_on_syn [OF syn(3) W0])
  next
    case (fin b)
    show ?thesis by (rule sends_on_fin [OF fin(5) W0])
  next
    case (ack_fin c1 b)
    from A [OF ack_fin(4,1)] show ?thesis by (rule sends_on_fin [OF ack_fin(8)])
  next
    case (ack go_on)
    from ack(3,1) show ?thesis by (rule A)
  qed (use W0 in simp)
qed

lemma sends_on_segment_syn_sent:
  assumes H: "on_segment_syn_sent E seg c = Some c'" and W: "sends iss W c"
    and st: "connection_state c = SynSent"
  shows "sends iss W c'"
proof -
  let ?c1 = "clear_re_tx_range E (ackn seg) (c\<lparr>rx_buf := rx_init (seqn seg) (rx_buf c)\<rparr>)"
  define c2 where "c2 = ?c1\<lparr>tx_buf := (tx_buf ?c1)\<lparr>unack := ackn seg, tx_window := window seg\<rparr>\<rparr>"
  have "emitted c2 \<subseteq> emitted c"
    using emitted_clear_re_tx_range [of E "ackn seg" "c\<lparr>rx_buf := rx_init (seqn seg) (rx_buf c)\<rparr>"]
    by (auto simp: c2_def emitted_def)
  then have S2: "sends iss W c2"
    by (intro sends_quietly [OF W]) (auto simp: c2_def st)
  have st2: "connection_state c2 = SynSent" by (simp add: c2_def st)
  have opened: "sends iss W c'" if "send_ack E (enter_state E FULLY_OPEN c2) = Some c'"
    by (rule sends_send_ack [OF that sends_enter_state [OF S2]])
      (use st2 in \<open>simp_all add: can_ack_def FULLY_OPEN_def\<close>)
  consider (reply) "flags_contains (flags seg) ACK"
      "\<not> in_range_inclusive (ackn seg) (unack (tx_buf c)) (tx_next (tx_buf c))"
    | (synack) "flags_contains (flags seg) ACK" "flags_contains (flags seg) SYN"
      "\<not> flags_contains (flags seg) RST"
      "in_range_inclusive (ackn seg) (unack (tx_buf c)) (tx_next (tx_buf c))"
    | (other) "c' = reset E c \<or> c' = c"
    using H by (auto simp: on_segment_syn_sent_def flag_simps split: if_splits)
  then show ?thesis
  proof cases
    case reply
    with H show ?thesis by (auto simp: on_segment_syn_sent_def intro!: sends_plain_user_send [OF W])
  next
    case synack
    with H have "c' = c2 \<or> send_ack E (enter_state E FULLY_OPEN c2) = Some c'"
      by (simp add: on_segment_syn_sent_def Let_def set_state_not_closing c2_def flag_simps FULLY_OPEN_def
          split: if_splits)
    with S2 opened show ?thesis by auto
  qed (use W in \<open>auto intro: sends_reset\<close>)
qed

end
