(* ===== verification/Tcp_Sender.thy ===== *)
theory Tcp_Sender
  imports Tcp_Stream
begin

text \<open>
  The sender: the user's calls and the clock keep \<open>sends\<close> (\<open>Tcp_Stream\<close>), with the stream
  growing by what \<open>send\<close> accepts, and so does every step of a connection (\<open>snd_ok_step\<close>).
\<close>

section \<open>The user's calls and the clock\<close>

text \<open>The bytes a call to \<open>send\<close> hands over: all of them, unless it returns an error.\<close>

definition accepted :: "'t conn_op \<Rightarrow> Error + nat \<Rightarrow> u8 list" where
  "accepted x r = (case x of
      DoSend bytes \<Rightarrow> (case r of Inr _ \<Rightarrow> bytes | Inl (ContinueAfter _) \<Rightarrow> bytes | _ \<Rightarrow> [])
    | _ \<Rightarrow> [])"

lemma accepted_simps [simp]:
  "accepted (DoSend bytes) (Inr n) = bytes" "accepted (DoSend bytes) (Inl (ContinueAfter k)) = bytes"
  "accepted (DoSend bytes) (Inl ConnectionReset) = []" "accepted (DoSend bytes) (Inl NotConnected) = []"
  "accepted (DoSend bytes) (Inl ConnectionClosing) = []"
  "accepted DoConnect r = []" "accepted (DoRecv buf) r = []" "accepted DoShutdown r = []"
  "accepted DoClose r = []" "accepted DoAbort r = []" "accepted (Segment seg) r = []"
  "accepted (Tick t) r = []"
  by (simp_all add: accepted_def)

lemma sends_suspend:
  "retry_after E w c = Some (r, c') \<Longrightarrow> sends iss W c \<Longrightarrow> sends iss W c'"
  "continue_after E w c = Some (r', c') \<Longrightarrow> sends iss W c \<Longrightarrow> sends iss W c'"
  by (auto elim!: retry_after_frame continue_after_frame)

lemma continue_after_result: "continue_after E w c = Some (r, c') \<Longrightarrow> \<exists>k. r = Err (ContinueAfter k)"
  by (auto simp: continue_after_def return_continue_after_def bind_eq_Some_conv)

lemma write_tx_state: "write_tx bytes c = Some c' \<Longrightarrow> connection_state c' = connection_state c"
  by (auto elim: write_tx_frame)

lemma sends_call_send:
  assumes H: "call_send E bytes c = Some (r, c')" and W: "sends iss W c" and ok: "conn_wf c"
  shows "sends iss (W @ accepted (DoSend bytes) (no_value r)) c' \<and>
    (fin_emitted c \<longrightarrow> accepted (DoSend bytes :: 't conn_op) (no_value r) = [])"
proof -
  have ne: "bytes \<noteq> []" using H by (auto simp: call_send_def bind_assert_eq_Some)
  show ?thesis
  proof (cases "connection_state c")
    case (Established t rx cc ca)
    with H obtain c1 where w: "write_tx bytes c = Some c1" and r: "r = Ok ()"
      and C: "c' = c1 \<or> send_ack E c1 = Some c'"
      by (auto simp: call_send_def bind_eq_Some_conv panic_simps Let_def split: if_splits)
    have "\<not> tx_fin_marked c" using w ne by (auto elim!: write_tx_frame)
    with ok Established have "t = Open" by (auto simp: conn_ok_def tx_ok_def)
    with write_tx_state [OF w] Established have "can_ack c1" "\<not> quiet (connection_state c1)"
      by (simp_all add: can_ack_def)
    with C r write_tx_sends [OF w W ne] Established show ?thesis
      by (auto simp: no_value_def intro: sends_send_ack)
  next
    case SynSent
    with H ne obtain c1 q where w: "write_tx bytes c = Some c1"
      and k: "continue_after E (Acknowledged q) c1 = Some (r, c')"
      by (auto simp: call_send_def Let_def bind_eq_Some_conv)
    from continue_after_result [OF k] sends_suspend(2) [OF k] write_tx_sends [OF w W ne] SynSent
    show ?thesis by (auto simp: no_value_def)
  next
    case SynReceived
    with H ne obtain c1 q where w: "write_tx bytes c = Some c1"
      and k: "continue_after E (Acknowledged q) c1 = Some (r, c')"
      by (auto simp: call_send_def Let_def bind_eq_Some_conv)
    from continue_after_result [OF k] sends_suspend(2) [OF k] write_tx_sends [OF w W ne] SynReceived
    show ?thesis by (auto simp: no_value_def)
  qed (use H W ne in \<open>auto simp: call_send_def no_value_def\<close>)
qed

lemma sends_call_recv:
  assumes H: "call_recv E buf c = Some (r, out, c')" and W: "sends iss W c"
  shows "sends iss W c'"
  using H
proof (cases "connection_state c")
  case (Established t rx cc ca)
  with H W show ?thesis
    by (auto simp: call_recv_def Let_def bind_eq_Some_conv split: ChannelState.splits if_splits
        intro: sends_suspend elim!: sends_set_state)
qed (use W in \<open>auto simp: call_recv_def Let_def bind_eq_Some_conv intro: sends_suspend\<close>)

lemma sends_mark_fin_and_send:
  assumes H: "mark_fin_and_send E c = Some c'" and W: "sends iss W c" and can: "can_ack c"
    and st: "\<not> quiet (connection_state c)"
  shows "sends iss W c' \<and> (connection_state c' = connection_state c \<or>
    connection_state c' = fin_state (connection_state c))"
proof -
  let ?c0 = "c\<lparr>tx_buf := (tx_buf c)\<lparr>tx_queue := mark_fin (tx_queue (tx_buf c))\<rparr>\<rparr>"
  have W0: "sends iss W ?c0" using W by (simp add: sends_def fin_emitted_def)
  have can0: "can_ack ?c0" using can by (simp add: can_ack_def)
  have "sends iss W c'"
    using sends_send_ack [OF _ W0 can0, of E c'] H st by (simp add: mark_fin_and_send_def)
  moreover have "connection_state c' = connection_state c \<or> connection_state c' = fin_state (connection_state c)"
    by (rule mark_fin_and_send_spec [OF can, of E]) (use H in \<open>auto split: if_splits\<close>)
  ultimately show ?thesis by blast
qed

lemma sends_fin_syn_received:
  assumes M: "mark_fin_and_send E c = Some c1" and W: "sends iss W c"
    and st: "connection_state c = SynReceived"
    and S: "set_state E (ConnectionState.Established Fin Open cc ca) c1 = Some c'"
  shows "sends iss W c'"
proof -
  have "can_ack c" using st by (simp add: can_ack_def)
  from sends_mark_fin_and_send [OF M W this] st have "sends iss W c1" "\<not> quiet (connection_state c1)"
    by auto
  then show ?thesis by (intro sends_set_state [OF S]) auto
qed

lemma sends_call_shutdown:
  assumes H: "call_shutdown E c = Some (r, c')" and W: "sends iss W c"
  shows "sends iss W c'"
proof (cases "connection_state c")
  case SynReceived
  with H W show ?thesis
    by (auto simp: call_shutdown_def bind_eq_Some_conv split: if_splits
        intro: sends_suspend sends_fin_syn_received)
next
  case (Established t rx cc ca)
  consider (same) "c' = c" | (suspend) "retry_after E TxQueueEmpty c = Some (r, c')"
    | (fin) c1 where "mark_fin_and_send E c1 = Some c'" "t = Open"
      "c1 = c \<or> set_state E (ConnectionState.Established t Open cc True) c = Some c1"
    using H Established
    by (auto simp: call_shutdown_def bind_eq_Some_conv split: if_splits ChannelState.splits)
  then show ?thesis
  proof cases
    case fin
    have "sends iss W c1"
      using fin(3) W Established fin(2) by (auto elim!: sends_set_state)
    moreover have "\<exists>rx cc ca. connection_state c1 = ConnectionState.Established Open rx cc ca"
      using fin(2,3) Established by (auto simp: set_state_not_closing split: if_splits)
    then have "can_ack c1" "\<not> quiet (connection_state c1)" by (auto simp: can_ack_def)
    ultimately show ?thesis using sends_mark_fin_and_send [OF fin(1)] by blast
  qed (use W sends_suspend in auto)
qed (use H W in \<open>auto simp: call_shutdown_def intro: sends_clear sends_trigger\<close>)

lemma sends_close_established:
  assumes H: "close_established E ca' c = Some (res, c')" and W: "sends iss W c"
    and st: "connection_state c = ConnectionState.Established t r cc ca"
  shows "sends iss W c'"
proof -
  from H st obtain c1 where S: "set_state E (ConnectionState.Established t r True ca') c = Some c1"
    and C: "c' = c1 \<or> continue_after E BothClosed c1 = Some (res, c')"
    by (auto simp: close_established_def Let_def bind_eq_Some_conv split: if_splits)
  have "sends iss W c1" using st by (intro sends_set_state [OF S W]) auto
  with C show ?thesis by (auto intro: sends_suspend)
qed

lemma sends_call_close:
  assumes H: "call_close E c = Some (r, c')" and W: "sends iss W c"
  shows "sends iss W c'"
proof (cases "connection_state c")
  case SynReceived
  with H W show ?thesis
    by (auto simp: call_close_def bind_eq_Some_conv split: if_splits
        intro: sends_suspend sends_fin_syn_received)
next
  case (Established t rx cc ca)
  consider (suspend) "retry_after E TxQueueEmpty c = Some (r, c')"
    | (fin) c1 ca' where "mark_fin_and_send E c = Some c1" "close_established E ca' c1 = Some (r, c')"
      "t = Open"
    | (closed) ca' where "close_established E ca' c = Some (r, c')"
    using H Established
    by (auto simp: call_close_def Let_def bind_eq_Some_conv split: if_splits)
  then show ?thesis
  proof cases
    case fin
    have "can_ack c" using Established fin(3) by (simp add: can_ack_def)
    from sends_mark_fin_and_send [OF fin(1) W this] Established
    show ?thesis by (auto intro: sends_close_established [OF fin(2)])
  qed (use W Established in \<open>auto intro: sends_suspend sends_close_established\<close>)
qed (use H W in \<open>auto simp: call_close_def intro: sends_clear sends_trigger\<close>)

lemma sends_call_abort: "call_abort E c = (r, c') \<Longrightarrow> sends iss W c \<Longrightarrow> sends iss W c'"
  by (auto simp: call_abort_def Let_def split: ConnectionState.splits
      intro!: sends_clear sends_trigger sends_plain_user_send)

lemma sends_on_timer_re_tx:
  assumes H: "on_timer_re_tx E c = Some c'" and W: "sends iss W c"
  shows "sends iss W c' \<and> connection_state c' = connection_state c"
proof (cases "re_tx (tx_buf c)")
  case Nil
  with H W show ?thesis by (auto simp: on_timer_re_tx_def Let_def split: ConnectionState.splits)
next
  case (Cons seg segs)
  then have em: "seg \<in> emitted c" by (simp add: emitted_def)
  have "sends iss W (set_timer_re_tx E d (user_send seg (c\<lparr>exp_backoff := b\<rparr>)))" for d b
    using W em by (simp add: sends_def fin_emitted_def insert_absorb)
  with H W Cons show ?thesis
    by (auto simp: on_timer_re_tx_def Let_def bind_eq_Some_conv split: ConnectionState.splits)
qed

lemma sends_on_time_tick:
  assumes H: "on_time_tick E time c = Some c'" and W: "sends iss W c"
  shows "sends iss W c'"
proof -
  from H obtain c1 c2 where
    c1: "(if expired (timer_re_tx (timers c)) time
       then on_timer_re_tx E (c\<lparr>timers := (timers c)\<lparr>timer_re_tx := None\<rparr>\<rparr>) else Some c) = Some c1"
    and c2: "(if expired (timer_timewait (timers c1)) time
       then on_timer_timewait E (c1\<lparr>timers := (timers c1)\<lparr>timer_timewait := None\<rparr>\<rparr>) else Some c1)
       = Some c2"
    and c': "c' = (if expired (timer_usertime (timers c2)) time
       then on_timer_usertime E (c2\<lparr>timers := (timers c2)\<lparr>timer_usertime := None\<rparr>\<rparr>) else c2)"
    by (auto simp: on_time_tick_def bind_eq_Some_conv)
  have "sends iss W c1" using c1 W sends_on_timer_re_tx [of E "c\<lparr>timers := tm\<rparr>" c1 for tm]
    by (auto split: if_splits)
  then have "sends iss W c2"
    using c2 by (auto simp: on_timer_timewait_def bind_assert_eq_Some split: if_splits intro: sends_clear)
  with c' show ?thesis by (auto simp: on_timer_usertime_def intro!: sends_clear sends_trigger)
qed

section \<open>Opening a connection\<close>

text \<open>The SYN or SYN-ACK that a new connection sends first.\<close>

lemma sends_new:
  assumes "emitted c \<subseteq> Collect plain \<union> {seg}" and "flags_contains (flags seg) SYN"
    and "\<not> flags_contains (flags seg) FIN" "data seg = []" "seqn seg = iss"
    and "tx_stream c = []" and "tx_next (tx_buf c) = iss + 1"
  shows "sends iss [] c"
proof -
  have "seg_ok iss [] seg" using assms by (simp add: seg_ok_def)
  then have "seg_ok iss [] s" if "s \<in> emitted c" for s
    using that assms(1) by (auto intro: plain_seg_ok)
  moreover have "\<not> fin_emitted c" using assms(1,3) by (auto simp: fin_emitted_def plain_def)
  ultimately show ?thesis using assms by (simp add: sends_def)
qed

lemma sends_call_connect:
  assumes H: "call_connect E c = Some (r, c')" and ok: "conn_wf c" and pl: "emitted c \<subseteq> Collect plain"
  shows "c' = c \<or> (\<exists>v. isns c' = isns c @ [v] \<and> sends v [] c')"
proof (cases "connection_state c = ConnectionState.Closed \<or> connection_state c = Reset")
  case False
  with H show ?thesis by (simp add: call_connect_def)
next
  case True
  have d: "rx_buf c = RxBuffer_default" "tx_buf c = TxBuffer_default"
    using ok True by (auto simp: quiet_conn_ok quiet_def)
  let ?c0 = "enter_state E SynSent c"
  let ?s = "new_seqn E (user_data ?c0)"
  let ?syn = "\<lparr>seqn = ?s, ackn = SeqN_ZERO, window = curr_window RxBuffer_default, flags = SYN, data = []\<rparr>"
  let ?tx = "on_send ?syn (tx_init ?s TxBuffer_default)"
  let ?c1 = "set_timer_re_tx E (rto (timings c)) (user_send ?syn (?c0\<lparr>user_data := user_data ?c0 @ [NewSeqn ?s],
      tx_buf := tx_init ?s TxBuffer_default\<rparr>)\<lparr>tx_buf := ?tx\<rparr>)"
  have k: "continue_after E WaitUntil.Established ?c1 = Some (r, c')"
    using H True d
    by (auto simp: call_connect_def set_state_not_closing user_new_seqn_def Let_def SeqN_new_def)
  have "emitted ?c1 \<subseteq> Collect plain \<union> {?syn}"
    using pl re_tx_on_send [of ?syn "tx_init ?s TxBuffer_default"]
    by (auto simp: emitted_def history_simps)
  then have "sends ?s [] ?c1"
    by (rule sends_new) (simp_all add: flag_simps tx_next_on_send seg_len_def)
  moreover have "isns ?c1 = isns c @ [?s]" by (simp add: history_simps)
  ultimately show ?thesis
    using sends_suspend(2) [OF k] k by (auto elim!: continue_after_frame)
qed

lemma sends_on_segment_listen:
  assumes H: "on_segment_listen E seg c = Some c'" and ok: "conn_wf c"
    and st: "connection_state c = ConnectionState.Listen" and pl: "emitted c \<subseteq> Collect plain"
  shows "(connection_state c' = ConnectionState.Listen \<and> emitted c' \<subseteq> Collect plain \<and> isns c' = isns c) \<or>
    (\<exists>v. isns c' = isns c @ [v] \<and> sends v [] c')"
proof (cases "flags_contains (flags seg) RST \<or> flags_contains (flags seg) ACK \<or>
    \<not> flags_contains (flags seg) SYN")
  case True
  with H st pl show ?thesis by (auto simp: on_segment_listen_def split: if_splits)
next
  case False
  have d: "rx_buf c = RxBuffer_default" "tx_buf c = TxBuffer_default"
    using ok st by (simp_all add: quiet_conn_ok)
  let ?s = "new_seqn E (user_data c)"
  let ?c0 = "enter_state E SynReceived (c\<lparr>rx_buf := rx_init (seqn seg) (rx_buf c),
    user_data := user_data c @ [NewSeqn ?s], tx_buf := (tx_init ?s (tx_buf c))\<lparr>tx_window := window seg\<rparr>\<rparr>)"
  let ?ack = "\<lparr>seqn = ?s, ackn = ackd (rx_buf ?c0), window = curr_window (rx_buf ?c0),
    flags = flags_or SYN ACK, data = []\<rparr>"
  let ?c1 = "set_timer_re_tx E (rto (timings c)) ?c0"
  have c': "c' = user_send ?ack (?c1\<lparr>tx_buf := on_send ?ack (tx_buf ?c1)\<rparr>)"
    using H False
    by (auto simp: on_segment_listen_def set_state_not_closing user_new_seqn_def Let_def
        SeqN_new_def bind_assert_eq_Some)
  have "emitted c' \<subseteq> Collect plain \<union> {?ack}"
    using pl re_tx_on_send [of ?ack "tx_init ?s TxBuffer_default"]
    by (auto simp: c' d emitted_def history_simps)
  then have "sends ?s [] c'"
    by (rule sends_new) (simp_all add: c' d flag_simps tx_next_on_send seg_len_def)
  moreover have "isns c' = isns c @ [?s]" by (simp add: c' history_simps)
  ultimately show ?thesis by blast
qed

section \<open>The sender as a machine\<close>

text \<open>
  A connection that was never opened has sent nothing but plain segments; one opened once sends
  its stream. Nothing is said of a connection opened again.
\<close>

definition snd_ok :: "u8 list \<Rightarrow> ('a, 't) Connection \<Rightarrow> bool" where
  "snd_ok W c \<longleftrightarrow>
     (case isns c of
        [] \<Rightarrow> quiet (connection_state c) \<and> W = [] \<and> emitted c \<subseteq> Collect plain
      | [iss] \<Rightarrow> sends iss W c
      | _ \<Rightarrow> True)"

lemma snd_ok_simps:
  "isns c = [] \<Longrightarrow> snd_ok W c \<longleftrightarrow> quiet (connection_state c) \<and> W = [] \<and> emitted c \<subseteq> Collect plain"
  "isns c = [iss] \<Longrightarrow> snd_ok W c \<longleftrightarrow> sends iss W c"
  by (simp_all add: snd_ok_def)

lemma sends_conn_step:
  assumes H: "conn_step E x c = Some (r, c')" and W: "sends iss W c" and ok: "conn_wf c"
    and s: "sound_op E x c" and one: "isns c = [iss]" "length (isns c') \<le> 1"
  shows "sends iss (W @ accepted x r) c' \<and> (fin_emitted c \<longrightarrow> accepted x r = [])"
proof (cases x)
  case DoConnect
  show ?thesis
  proof (cases "connection_state c = ConnectionState.Closed \<or> connection_state c = Reset")
    case False
    with DoConnect H W show ?thesis by (auto simp: call_connect_def apfst_def)
  next
    case True
    then have "isns c' = isns c @ [new_seqn E (user_data (enter_state E SynSent c))]"
      using DoConnect H
      by (auto simp: call_connect_def set_state_not_closing user_new_seqn_def Let_def history_simps
          apfst_def elim!: continue_after_frame)
    with one show ?thesis by simp
  qed
next
  case (Segment seg)
  with H have g: "on_segment E seg c = Some c'" by auto
  have q: "roomy c" "seg_len seg < 2 ^ 32" "not_stray E seg c"
    using s Segment by (auto simp: sound_op_def)
  have "sends iss W c'"
  proof (cases "connection_state c")
    case Listen
    show ?thesis
    proof (cases "isns c' = isns c")
      case True
      with g Listen W show ?thesis
        by (auto simp: on_segment_def on_segment_listen_def user_new_seqn_def Let_def set_state_not_closing
            history_simps bind_assert_eq_Some split: if_splits intro!: sends_plain_user_send)
    next
      case False
      with isns_step [OF H] one show ?thesis by auto
    qed
  qed (use g W ok q in \<open>auto simp: on_segment_def intro: sends_on_segment_closed sends_on_segment_syn_sent
      sends_on_segment_synchronized\<close>)
  with Segment show ?thesis by simp
next
  case DoAbort
  with H W show ?thesis by (cases "call_abort E c") (auto intro: sends_call_abort)
next
  case (DoSend bytes)
  with H obtain q where q: "call_send E bytes c = Some (q, c')" "r = no_value q"
    by (auto simp: apfst_def)
  from sends_call_send [OF q(1) W ok] show ?thesis using q(2) DoSend by (simp add: accepted_def)
qed (use H W in \<open>auto simp: apfst_def intro: sends_call_recv sends_call_shutdown sends_call_close
      sends_on_time_tick\<close>)

text \<open>Before it is opened, a connection answers segments and turns calls away.\<close>

lemma idle_on_segment_closed:
  "on_segment_closed seg c = Some c' \<Longrightarrow> emitted c \<subseteq> Collect plain \<Longrightarrow>
    connection_state c' = connection_state c \<and> emitted c' \<subseteq> Collect plain \<and> isns c' = isns c"
  by (auto simp: on_segment_closed_def response_to_closed_def bind_eq_Some_conv split: if_splits)

lemma idle_conn_step:
  assumes H: "conn_step E x c = Some (r, c')" and ok: "conn_wf c"
    and q: "quiet (connection_state c)" and pl: "emitted c \<subseteq> Collect plain"
  shows "accepted x r = [] \<and>
    (quiet (connection_state c') \<and> emitted c' \<subseteq> Collect plain \<and> isns c' = isns c \<or>
     (\<exists>v. isns c' = isns c @ [v] \<and> sends v [] c'))"
proof -
  have tm: "timers c = Timers_default" using ok q by (simp add: quiet_conn_ok)
  have cl: "emitted (clear E (trigger_event E f e c)) \<subseteq> Collect plain" for f e
    using pl emitted_clear(1) [of E "trigger_event E f e c"] by auto
  show ?thesis
  proof (cases x)
    case DoConnect
    with H obtain r' where "call_connect E c = Some (r', c')" by (auto simp: apfst_def)
    from sends_call_connect [OF this ok pl] DoConnect q pl show ?thesis by auto
  next
    case (Segment seg)
    with H have g: "on_segment E seg c = Some c'" by auto
    show ?thesis
    proof (cases "connection_state c = ConnectionState.Listen")
      case True
      with g sends_on_segment_listen [of E seg c c'] ok pl Segment show ?thesis
        by (auto simp: on_segment_def)
    next
      case False
      with q g have "on_segment_closed seg c = Some c'" by (auto simp: quiet_def on_segment_def)
      from idle_on_segment_closed [OF this pl] Segment q show ?thesis by simp
    qed
  next
    case (Tick t)
    with H tm q pl show ?thesis by (auto simp: on_time_tick_def expired_def)
  next
    case DoAbort
    with H q pl show ?thesis
      by (auto simp: call_abort_def quiet_def apfst_def dest: subsetD [OF cl])
  next
    case (DoSend bytes)
    with H q pl show ?thesis
      by (auto simp: call_send_def quiet_def apfst_def no_value_def bind_assert_eq_Some)
  next
    case (DoRecv buf)
    with H q have "c' = c \<or> (\<exists>r'. retry_after E WaitUntil.Established c = Some (r' :: Error + nat, c'))"
      by (auto simp: call_recv_def quiet_def bind_eq_Some_conv)
    then obtain ev where "c' = c \<or> c' = c\<lparr>events := ev\<rparr>" by (auto elim: retry_after_frame)
    with DoRecv q pl show ?thesis by auto
  next
    case DoShutdown
    with H q pl show ?thesis
      by (auto simp: call_shutdown_def quiet_def apfst_def dest: subsetD [OF cl])
  next
    case DoClose
    with H q pl show ?thesis
      by (auto simp: call_close_def quiet_def apfst_def dest: subsetD [OF cl])
  qed
qed

lemma snd_ok_step:
  assumes H: "conn_step E x c = Some (r, c')" and W: "snd_ok W c" and ok: "conn_wf c"
    and s: "sound_op E x c" and one: "length (isns c') \<le> 1"
  shows "snd_ok (W @ accepted x r) c'" and "fin_emitted c \<Longrightarrow> accepted x r = []"
proof -
  obtain d where d: "isns c' = isns c @ d" using isns_step [OF H] by auto
  have "snd_ok (W @ accepted x r) c' \<and> (fin_emitted c \<longrightarrow> accepted x r = [])"
  proof (cases "isns c")
    case Nil
    with W have q: "quiet (connection_state c)" "W = []" "emitted c \<subseteq> Collect plain"
      by (simp_all add: snd_ok_simps)
    from idle_conn_step [OF H ok q(1,3)] Nil q(2) show ?thesis by (auto simp: snd_ok_simps)
  next
    case (Cons iss rest)
    with one d have i: "isns c = [iss]" "isns c' = [iss]" by auto
    from W i have "sends iss W c" by (simp add: snd_ok_simps)
    from sends_conn_step [OF H this ok s i(1) one] i show ?thesis by (simp add: snd_ok_simps)
  qed
  then show "snd_ok (W @ accepted x r) c'" "fin_emitted c \<Longrightarrow> accepted x r = []" by auto
qed

lemma snd_ok_new: "snd_ok [] ((Connection_new a [])\<lparr>options := opt\<rparr>)"
  by (simp add: snd_ok_def emitted_def)

lemma snd_ok_accepting:
  assumes "set_state E ConnectionState.Listen ((Connection_new a [])\<lparr>options := opt\<rparr>) = Some c"
  shows "snd_ok [] c"
proof -
  from assms have c: "c = enter_state E ConnectionState.Listen ((Connection_new a [])\<lparr>options := opt\<rparr>)"
    by (simp add: set_state_not_closing)
  show ?thesis by (simp add: c snd_ok_def) (simp add: emitted_def)
qed

end
