(* ===== verification/Tcp_Receiver.thy ===== *)
theory Tcp_Receiver
  imports Tcp_Sender
begin

text \<open>
  What a connection hands to its reader. \<open>rcv_ok ended as W R c\<close> relates a connection to the initial
  sequence numbers \<open>as\<close> of its peer, the stream \<open>W\<close> the peer sends and the bytes \<open>R\<close> read so
  far: the bytes read and those buffered are the first bytes of \<open>W\<close>, and the end is marked only
  when they are all of it.
\<close>

section \<open>The receive buffer in a handler\<close>

definition synced :: "ConnectionState \<Rightarrow> bool" where
  "synced s \<longleftrightarrow> \<not> quiet s \<and> \<not> handshaking s"

lemma synced_simps [simp]:
  "synced (ConnectionState.Established t r cc ca)" "synced TimeWait" "synced FULLY_OPEN"
  "\<not> synced SynSent" "\<not> synced SynReceived" "\<not> synced ConnectionState.Closed" "\<not> synced Reset"
  "\<not> synced ConnectionState.Listen"
  by (simp_all add: synced_def FULLY_OPEN_def)

lemma synced_fin_state [simp]: "synced (fin_state s)"
  by (simp add: fin_state_def split: ConnectionState.split)

text \<open>The connection is gone, or open with the same receive buffer.\<close>

definition rx_kept :: "RxBuffer \<Rightarrow> ('a, 't) Connection \<Rightarrow> bool" where
  "rx_kept rx c' \<longleftrightarrow> connection_state c' = ConnectionState.Closed \<or>
     synced (connection_state c') \<and> rx_buf c' = rx"

definition stored :: "bool \<Rightarrow> SegmentMeta \<Rightarrow> RxBuffer \<Rightarrow> RxBuffer \<Rightarrow> bool" where
  "stored dbg seg rx rx' \<longleftrightarrow> seqn seg = ackd rx \<and> rx_write dbg seg rx = Some rx'"

lemma set_state_rx:
  assumes "set_state E (ConnectionState.Established t r cc ca) c = Some c'"
  shows "rx_kept (rx_buf c) c'"
  using assms by (rule set_state_cases) (auto simp: rx_kept_def)

lemma on_fin_rx:
  assumes H: "on_fin E b c = Some c'" and st: "\<not> quiet (connection_state c)" "connection_state c \<noteq> SynSent"
  shows "rx_kept (rx_buf c) c'"
proof (cases "connection_state c")
  case TimeWait
  with H show ?thesis by (auto simp: on_fin_def Let_def rx_kept_def split: if_splits)
next
  case SynReceived
  with H have "set_state E (ConnectionState.Established Open Fin False False)
      (trigger_event E is_Recv (Ok ()) c) = Some c'"
    by (simp add: on_fin_def)
  from set_state_rx [OF this] show ?thesis by simp
next
  case (Established t r cc ca)
  with H have "set_state E (ConnectionState.Established t Fin cc ca)
      (trigger_event E is_Recv (Ok ()) c) = Some c'"
    by (cases r) (simp_all add: on_fin_def)
  from set_state_rx [OF this] show ?thesis by simp
qed (use st in auto)

lemma store_segment_rx:
  assumes H: "store_segment E seg c = Some (go_on, c')" and can: "can_ack c" and st: "synced (connection_state c)"
  shows "rx_kept (rx_buf c) c' \<or>
    (\<exists>rx'. stored (debug_assertions E) seg (rx_buf c) rx' \<and> rx_kept rx' c')"
proof (cases "seqn seg = ackd (rx_buf c)")
  case True
  with H obtain rx' where w: "rx_write (debug_assertions E) seg (rx_buf c) = Some rx'"
    and s: "send_ack E (c\<lparr>rx_buf := rx'\<rparr>) = Some c'"
    by (auto simp: store_segment_def bind_eq_Some_conv)
  have "can_ack (c\<lparr>rx_buf := rx'\<rparr>)" using can by (simp add: can_ack_def)
  then obtain c'' where c'': "send_ack E (c\<lparr>rx_buf := rx'\<rparr>) = Some c''" "rx_buf c'' = rx'"
    "connection_state c'' = connection_state c \<or> connection_state c'' = fin_state (connection_state c)"
    by (rule send_ack_spec [of "c\<lparr>rx_buf := rx'\<rparr>" E]) (auto split: if_splits)
  then have "rx_kept rx' c'" using s st by (auto simp: rx_kept_def)
  with w True show ?thesis by (auto simp: stored_def)
qed (use H st in \<open>auto simp: store_segment_def rx_kept_def split: if_splits\<close>)

lemma on_ack_rx:
  assumes H: "on_ack E seg c = Some (go_on, c')" and ok: "conn_wf c"
    and st: "\<not> quiet (connection_state c)" "connection_state c \<noteq> SynSent"
    and room: "roomy c" and f: "fits seg (rx_buf c)" and d: "not_stray E seg c"
  shows "go_on = False \<and> c' = c \<or> rx_kept (rx_buf c) c' \<or>
    (\<exists>rx'. stored (debug_assertions E) seg (rx_buf c) rx' \<and> rx_kept rx' c')"
  using H
proof (cases rule: on_ack_cases)
  case (valid c1 c2 c3)
  note c1 = open_stage [OF valid(2) ok st]
  then have "roomy c1" using room by (simp add: roomy_def)
  with acked_stage [OF valid(3)] c1 valid(1)
  have c2: "conn_wf c2 \<and> connection_state c2 = connection_state c1 \<and> rx_buf c2 = rx_buf c1 \<and>
    unack (tx_buf c2) = ackn seg \<and> tx_next (tx_buf c2) = tx_next (tx_buf c1) \<and> roomy c2" by simp
  have c3: "conn_wf c3" "connection_state c3 = ConnectionState.Closed \<or> synced (connection_state c3)"
    using on_ack_of_fin_fits [OF valid(4), of "connection_state c"] c1 c2 f by (auto simp: synced_def)
  show ?thesis
  proof (cases "connection_state c3 = ConnectionState.Closed")
    case True
    have "debug_assertions E \<or> seqn seg \<noteq> 0"
      using closed_by_last_ack [OF valid(2) _ _ valid(4) True st(1)] c2 d by (auto simp: not_stray_def)
    from store_segment_gone(2) [OF valid(5) c3(1) True this] show ?thesis by (simp add: rx_kept_def)
  next
    case False
    then have "rx_buf c3 = rx_buf c"
      using on_ack_of_fin_ok [OF valid(4), of False] c1 c2 by auto
    moreover have s: "synced (connection_state c3)" using False c3 by simp
    moreover have "can_ack c3" using s c3(1) by (intro conn_ok_can_ack) (auto simp: synced_def)
    ultimately show ?thesis using store_segment_rx [OF valid(5)] by simp
  qed
qed simp

lemma on_segment_synchronized_rx:
  assumes H: "on_segment_synchronized E seg c = Some c'" and ok: "conn_wf c"
    and st: "\<not> quiet (connection_state c)" "connection_state c \<noteq> SynSent"
    and room: "roomy c" and len: "seg_len seg < 2 ^ 32" and d: "not_stray E seg c"
  shows "quiet (connection_state c') \<or>
    connection_state c' = connection_state c \<and> rx_buf c' = rx_buf c \<or>
    synced (connection_state c') \<and> (rx_buf c' = rx_buf c \<or> fits seg (rx_buf c) \<and>
      \<not> flags_contains (flags seg) SYN \<and> stored (debug_assertions E) seg (rx_buf c) (rx_buf c'))"
proof -
  define c0 where "c0 = c\<lparr>tx_buf := (tx_buf c)\<lparr>tx_window := min (window seg) (congestion_window c)\<rparr>\<rparr>"
  have ok0: "conn_wf c0" "\<not> quiet (connection_state c0)" "connection_state c0 \<noteq> SynSent" "roomy c0"
    and d0: "not_stray E seg c0" and rx0: "rx_buf c0 = rx_buf c" "connection_state c0 = connection_state c"
    using ok st room d by (simp_all add: c0_def roomy_def)
  have A: "go_on = False \<and> c1 = c0 \<or> rx_kept (rx_buf c) c1 \<or>
      (\<exists>rx'. stored (debug_assertions E) seg (rx_buf c) rx' \<and> rx_kept rx' c1)" and f: "fits seg (rx_buf c)"
    if "on_ack E seg c0 = Some (go_on, c1)" "check_segment_seq_ok c seg" for go_on c1
    using on_ack_rx [OF that(1) ok0 _ d0] fits_accepted [OF ok that(2) len] rx0 by simp_all
  from H c0_def st show ?thesis
  proof (cases rule: on_segment_synchronized_cases)
    case (fin b)
    from on_fin_rx [OF fin(5) ok0(2,3)] show ?thesis by (auto simp: rx_kept_def rx0)
  next
    case (ack go_on)
    from A [OF ack(3,1)] f [OF ack(3,1)] ack(2) rx0 show ?thesis by (auto simp: rx_kept_def)
  next
    case (ack_fin c1 b)
    from A [OF ack_fin(4,1)] ack_fin(5) obtain rx' where c1: "rx_buf c1 = rx'" "synced (connection_state c1)"
      and rx': "rx' = rx_buf c \<or> stored (debug_assertions E) seg (rx_buf c) rx'"
      by (auto simp: rx_kept_def)
    have "rx_kept rx' c'"
      using on_fin_rx [OF ack_fin(8)] ack_fin(7) c1 by (auto simp: synced_def)
    with rx' f [OF ack_fin(4,1)] ack_fin(2) show ?thesis by (auto simp: rx_kept_def)
  next
    case rst
    then show ?thesis by (auto simp: on_rst_def set_state_not_closing split: ConnectionState.splits)
  next
    case syn
    then show ?thesis by (auto simp: on_syn_def set_state_not_closing Let_def)
  qed (auto simp: c0_def on_unacceptable_def)
qed

section \<open>Receiving a stream\<close>

text \<open>
  The buffer of an open connection: what was read and what is buffered are the first \<open>n\<close> bytes
  of the peer's stream, acknowledged up to there, and the FIN comes after the last. \<open>ended\<close> tells
  whether the peer has sent its FIN.
\<close>

definition rx_holds :: "bool \<Rightarrow> SeqN \<Rightarrow> u8 list \<Rightarrow> u8 list \<Rightarrow> RxBuffer \<Rightarrow> bool" where
  "rx_holds ended iss W R rx \<longleftrightarrow> (\<exists>n \<le> length W. R @ rx_stream rx = take n W \<and>
     ackd rx = iss + 1 + as_u32 n + of_bool (rx_fin rx) \<and> (rx_fin rx \<longrightarrow> n = length W \<and> ended))"

lemma as_u32_inj: "as_u32 a = as_u32 b \<Longrightarrow> a < 2 ^ 32 \<Longrightarrow> b < 2 ^ 32 \<Longrightarrow> a = b"
  by (metis unat_of_nat_u32)

lemma rx_holds_stored:
  assumes H: "stored dbg seg rx rx'" and f: "fits seg rx" and ns: "\<not> flags_contains (flags seg) SYN"
    and s: "seg_ok iss W seg" and e: "flags_contains (flags seg) FIN \<longrightarrow> ended" and R: "rx_holds ended iss W R rx" and W: "length W < 2 ^ 32"
  shows "rx_holds ended iss W R rx'"
proof -
  from H have sq: "seqn seg = ackd rx" and w: "rx_write dbg seg rx = Some rx'"
    by (simp_all add: stored_def)
  note D = rx_writeD [OF w]
  from R obtain n where n: "n \<le> length W" "R @ rx_stream rx = take n W"
    "ackd rx = iss + 1 + as_u32 n + of_bool (rx_fin rx)" "rx_fin rx \<longrightarrow> n = length W \<and> ended"
    by (auto simp: rx_holds_def)
  have sz: "seq_size seg = as_u32 (length (data seg)) + of_bool (flags_contains (flags seg) FIN)"
    using ns by (simp add: seq_size_of_nat seg_len_def)
  consider (empty) "seg_len seg = 0" | (data) "\<not> rx_fin rx" "data seg \<noteq> []" "\<not> flags_contains (flags seg) FIN"
    | (fin) "\<not> rx_fin rx" "data seg = []" "flags_contains (flags seg) FIN"
    using f sq w ns by (cases "data seg = []")
      (auto simp: fits_def rx_write_cases seg_len_def split: if_splits)
  then show ?thesis
  proof cases
    case empty
    then have "data seg = []" "\<not> flags_contains (flags seg) FIN" "seq_size seg = 0"
      using seg_len_0D [OF empty] sz by simp_all
    with D n show ?thesis by (auto simp: rx_holds_def)
  next
    case data
    from s data obtain off where off: "seqn seg = iss + 1 + as_u32 off"
      "off + length (data seg) \<le> length W" "data seg = take (length (data seg)) (drop off W)"
      by (auto simp: seg_ok_def)
    have "as_u32 off = as_u32 n" using off(1) sq n(3) data(1) by simp
    then have on: "off = n" using off(2) n(1) W by (intro as_u32_inj) auto
    have "R @ rx_stream rx' = take (n + length (data seg)) W"
      using D n off on by (simp add: take_add)
    moreover have "ackd rx' = iss + 1 + as_u32 (n + length (data seg))"
      using D n sz data by (simp add: add.assoc)
    ultimately show ?thesis
      using D(3) data off(2) on unfolding rx_holds_def by (intro exI [of _ "n + length (data seg)"]) auto
  next
    case fin
    then have "iss + 1 + as_u32 n = iss + 1 + as_u32 (length W)"
      using s sq n(3) by (simp add: seg_ok_def)
    then have "n = length W" using n(1) W by (intro as_u32_inj) auto
    with D n fin sz e show ?thesis by (auto simp: rx_holds_def)
  qed
qed

lemma rx_holds_read:
  assumes "rx_read_bytes limit rx = Some (bytes, rx')" and "rx_holds ended iss W R rx"
  shows "rx_holds ended iss W (R @ bytes) rx'"
proof -
  have "bytes @ rx_stream rx' = rx_stream rx"
    by (simp only: rx_read_bytesD(2,3) [OF assms(1)] append_take_drop_id)
  then have "(R @ bytes) @ rx_stream rx' = R @ rx_stream rx" by (simp only: append_assoc)
  then show ?thesis
    using assms(2) unfolding rx_holds_def rx_read_bytesD(4,6) [OF assms(1)] by simp
qed

lemma rx_holds_init:
  assumes "rx_stream rx = []" "\<not> rx_fin rx" "ackd rx = iss + 1"
  shows "rx_holds ended iss W [] rx"
proof -
  have "(0::nat) \<le> length W \<and> [] @ rx_stream rx = take 0 W \<and>
     ackd rx = iss + 1 + as_u32 0 + of_bool (rx_fin rx) \<and> (rx_fin rx \<longrightarrow> 0 = length W \<and> ended)"
    by (intro conjI) (simp_all add: assms)
  then show ?thesis unfolding rx_holds_def by blast
qed

text \<open>The prefix order, with the peer's stream growing.\<close>

definition rcv_ok :: "bool \<Rightarrow> u32 list \<Rightarrow> u8 list \<Rightarrow> u8 list \<Rightarrow> ('a, 't) Connection \<Rightarrow> bool" where
  "rcv_ok ended as W R c \<longleftrightarrow>
     (\<exists>n. R = take n W) \<and> (isns c = [] \<longrightarrow> quiet (connection_state c) \<and> R = []) \<and>
     (handshaking (connection_state c) \<longrightarrow> R = []) \<and>
     (connection_state c = SynReceived \<longrightarrow> (\<exists>iss. as = [iss] \<and> ackd (rx_buf c) = iss + 1)) \<and>
     (synced (connection_state c) \<longrightarrow> (\<exists>iss. as = [iss] \<and> rx_holds ended iss W R (rx_buf c)))"

lemma rx_holds_prefix: "rx_holds ended iss W R rx \<Longrightarrow> \<exists>n. R = take n W"
proof -
  assume "rx_holds ended iss W R rx"
  then obtain n where n: "R @ rx_stream rx = take n W" by (auto simp: rx_holds_def)
  have "R = take (length R) (take n W)" by (simp add: n [symmetric])
  then show ?thesis by (metis take_take)
qed

text \<open>A segment of the peer, given its initial sequence numbers.\<close>

definition from_peer :: "bool \<Rightarrow> u32 list \<Rightarrow> u8 list \<Rightarrow> SegmentMeta \<Rightarrow> bool" where
  "from_peer ended as W seg \<longleftrightarrow> (flags_contains (flags seg) FIN \<longrightarrow> ended) \<and>
     (case as of [] \<Rightarrow> plain seg | [iss] \<Rightarrow> seg_ok iss W seg | _ \<Rightarrow> True)"

lemma rcv_quiet:
  assumes "rcv_ok ended as W R c" and "quiet (connection_state c')" and "isns c' = [] \<longrightarrow> isns c = []"
  shows "rcv_ok ended as W R c'"
proof -
  have "\<not> handshaking (connection_state c')" "connection_state c' \<noteq> SynReceived"
    "\<not> synced (connection_state c')"
    using assms(2) by (auto simp: synced_def handshaking_def)
  with assms show ?thesis unfolding rcv_ok_def by blast
qed

lemma rcv_same:
  assumes "rcv_ok ended as W R c" and "connection_state c' = connection_state c" and "rx_buf c' = rx_buf c"
    and "isns c' = [] \<longrightarrow> isns c = []"
  shows "rcv_ok ended as W R c'"
  using assms(1,4) unfolding rcv_ok_def assms(2,3) by blast

section \<open>Steps that receive nothing\<close>

text \<open>The connection is gone, or keeps its receive buffer and at most gets synchronised.\<close>

definition rx_frame :: "('a, 't) Connection \<Rightarrow> ('a, 't) Connection \<Rightarrow> bool" where
  "rx_frame c c' \<longleftrightarrow> quiet (connection_state c') \<or>
     rx_buf c' = rx_buf c \<and> (connection_state c' = connection_state c \<or>
       connection_state c \<noteq> SynSent \<and> synced (connection_state c'))"

lemma rx_frame_refl [simp, intro!]: "rx_frame c c"
  by (simp add: rx_frame_def)

lemma rx_frame_kept:
  "rx_kept (rx_buf c) c' \<Longrightarrow> connection_state c \<noteq> SynSent \<Longrightarrow> rx_frame c c'"
  by (auto simp: rx_frame_def rx_kept_def)

lemma rcv_frame:
  assumes R: "rcv_ok ended as W R c" and F: "rx_frame c c'" and ok: "conn_wf c"
    and st: "\<not> quiet (connection_state c)" and i: "isns c' = [] \<longrightarrow> isns c = []"
  shows "rcv_ok ended as W R c'"
proof -
  consider (quiet) "quiet (connection_state c')"
    | (same) "connection_state c' = connection_state c" "rx_buf c' = rx_buf c"
    | (sync) "rx_buf c' = rx_buf c" "synced (connection_state c')" "connection_state c \<noteq> SynSent"
    using F by (auto simp: rx_frame_def)
  then show ?thesis
  proof cases
    case sync
    have "\<exists>iss. as = [iss] \<and> rx_holds ended iss W R (rx_buf c')"
    proof (cases "synced (connection_state c)")
      case True
      with R sync show ?thesis by (simp add: rcv_ok_def)
    next
      case False
      with st sync(3) have s: "connection_state c = SynReceived"
        by (cases "connection_state c") auto
      with R obtain iss where "as = [iss]" "ackd (rx_buf c) = iss + 1" "R = []"
        by (auto simp: rcv_ok_def)
      moreover have "rx_stream (rx_buf c) = []" "\<not> rx_fin (rx_buf c)"
        using ok s by (simp_all add: conn_ok_def rx_ok_def)
      ultimately show ?thesis using sync(1) by (auto intro: rx_holds_init)
    qed
    moreover have "isns c' \<noteq> []" using R st i by (auto simp: rcv_ok_def)
    moreover have "\<not> handshaking (connection_state c')" "connection_state c' \<noteq> SynReceived"
      using sync(2) by (auto simp: synced_def)
    ultimately show ?thesis using R unfolding rcv_ok_def by blast
  qed (use R i rcv_quiet rcv_same in \<open>blast+\<close>)
qed

lemma rx_frame_send_ack:
  assumes "send_ack E c1 = Some c'" and "can_ack c1" and "rx_buf c1 = rx_buf c"
    and "connection_state c1 = connection_state c" and "connection_state c \<noteq> SynSent"
  shows "rx_frame c c'"
proof -
  obtain c'' where "send_ack E c1 = Some c''" "rx_buf c'' = rx_buf c1"
    "connection_state c'' = (if ack_fin c1 then fin_state (connection_state c1) else connection_state c1)"
    by (rule send_ack_spec [OF assms(2), of E])
  with assms show ?thesis by (auto simp: rx_frame_def split: if_splits)
qed

lemma rx_frame_call_send:
  assumes H: "call_send E bytes c = Some (r, c')" and ok: "conn_wf c"
  shows "rx_frame c c'"
proof -
  have ne: "bytes \<noteq> []" using H by (auto simp: call_send_def bind_assert_eq_Some)
  have w: "rx_buf c1 = rx_buf c \<and> connection_state c1 = connection_state c" if "write_tx bytes c = Some c1" for c1
    using that by (auto elim: write_tx_frame)
  show ?thesis
  proof (cases "connection_state c")
    case (Established t rx cc ca)
    with H obtain c1 where c1: "write_tx bytes c = Some c1" and C: "c' = c1 \<or> send_ack E c1 = Some c'"
      by (auto simp: call_send_def bind_eq_Some_conv panic_simps Let_def split: if_splits)
    have "\<not> tx_fin_marked c" using c1 ne by (auto elim!: write_tx_frame)
    with ok Established have "t = Open" by (auto simp: conn_ok_def tx_ok_def)
    with w [OF c1] Established have "can_ack c1" by (simp add: can_ack_def)
    with C w [OF c1] Established show ?thesis
      by (auto simp: rx_frame_def [of c c1] intro: rx_frame_send_ack)
  qed (use H ne in \<open>auto simp: call_send_def Let_def bind_eq_Some_conv rx_frame_def dest!: w
      elim!: continue_after_frame\<close>)
qed

lemma mark_fin_and_send_rx:
  assumes M: "mark_fin_and_send E c = Some c1" and can: "can_ack c"
  shows "rx_buf c1 = rx_buf c \<and> (connection_state c1 = connection_state c \<or>
    connection_state c1 = fin_state (connection_state c))"
  by (rule mark_fin_and_send_spec [OF can, of E]) (use M in \<open>auto split: if_splits\<close>)

lemma rx_frame_suspend:
  "retry_after E w c = Some (r, c') \<Longrightarrow> rx_frame c c'"
  "continue_after E w c1 = Some (r', c') \<Longrightarrow> rx_frame c c1 \<Longrightarrow> rx_frame c c'"
  by (auto simp: rx_frame_def elim!: retry_after_frame continue_after_frame)

lemma rx_frame_set_state:
  assumes "set_state E (ConnectionState.Established t r cc ca) c1 = Some c'"
    and "rx_buf c1 = rx_buf c" and "connection_state c \<noteq> SynSent"
  shows "rx_frame c c'"
  using set_state_rx [OF assms(1)] assms(2,3) by (auto intro: rx_frame_kept)

lemma rx_frame_clear [simp]: "rx_frame c (clear E c1)"
  by (simp add: rx_frame_def)

lemma rx_frame_fin_syn_received:
  assumes M: "mark_fin_and_send E c = Some c1" and st: "connection_state c = SynReceived"
    and S: "set_state E (ConnectionState.Established Fin Open cc ca) c1 = Some c'"
  shows "rx_frame c c'"
proof -
  have "can_ack c" using st by (simp add: can_ack_def)
  with M st show ?thesis by (auto intro: rx_frame_set_state [OF S] dest!: mark_fin_and_send_rx)
qed

lemma rx_frame_call_shutdown:
  assumes H: "call_shutdown E c = Some (r, c')"
  shows "rx_frame c c'"
proof (cases "connection_state c")
  case SynReceived
  with H show ?thesis
    by (auto simp: call_shutdown_def bind_eq_Some_conv split: if_splits
        intro: rx_frame_suspend rx_frame_fin_syn_received)
next
  case (Established t rx cc ca)
  consider (same) "c' = c" | (suspend) "retry_after E TxQueueEmpty c = Some (r, c')"
    | (fin) c1 where "mark_fin_and_send E c1 = Some c'" "t = Open"
      "c1 = c \<or> set_state E (ConnectionState.Established t Open cc True) c = Some c1"
    using H Established
    by (auto simp: call_shutdown_def bind_eq_Some_conv split: if_splits ChannelState.splits)
  then show ?thesis
  proof cases
    case fin
    have "rx_buf c1 = rx_buf c \<and> (\<exists>rx cc ca. connection_state c1 = ConnectionState.Established Open rx cc ca)"
      using fin(2,3) Established by (auto simp: set_state_not_closing split: if_splits)
    moreover from this have "can_ack c1" by (auto simp: can_ack_def)
    ultimately show ?thesis
      using mark_fin_and_send_rx [OF fin(1)] Established by (auto simp: rx_frame_def)
  qed (auto intro: rx_frame_suspend)
qed (use H in \<open>auto simp: call_shutdown_def\<close>)

lemma rx_frame_close_established:
  assumes H: "close_established E ca' c1 = Some (res, c')" and "rx_buf c1 = rx_buf c"
    and "connection_state c \<noteq> SynSent"
  shows "rx_frame c c'"
proof -
  from H obtain c2 t r where S: "set_state E (ConnectionState.Established t r True ca') c1 = Some c2"
    and C: "c' = c2 \<or> continue_after E BothClosed c2 = Some (res, c')"
    by (auto simp: close_established_def Let_def bind_eq_Some_conv split: if_splits)
  from rx_frame_set_state [OF S assms(2,3)] C show ?thesis by (auto intro: rx_frame_suspend)
qed

lemma rx_frame_call_close:
  assumes H: "call_close E c = Some (r, c')"
  shows "rx_frame c c'"
proof (cases "connection_state c")
  case SynReceived
  with H show ?thesis
    by (auto simp: call_close_def bind_eq_Some_conv split: if_splits
        intro: rx_frame_suspend rx_frame_fin_syn_received)
next
  case (Established t rx cc ca)
  consider (suspend) "retry_after E TxQueueEmpty c = Some (r, c')"
    | (fin) c1 ca' where "mark_fin_and_send E c = Some c1" "close_established E ca' c1 = Some (r, c')"
      "t = Open"
    | (closed) ca' where "close_established E ca' c = Some (r, c')"
    using H Established
    by (auto simp: call_close_def Let_def bind_eq_Some_conv split: if_splits)
  then show ?thesis
  proof cases
    case fin
    have "can_ack c" using Established fin(3) by (simp add: can_ack_def)
    with mark_fin_and_send_rx [OF fin(1)] Established show ?thesis
      by (auto intro: rx_frame_close_established [OF fin(2)])
  qed (use Established in \<open>auto intro: rx_frame_suspend rx_frame_close_established\<close>)
qed (use H in \<open>auto simp: call_close_def\<close>)

lemma rx_frame_call_abort: "call_abort E c = (r, c') \<Longrightarrow> rx_frame c c'"
  by (auto simp: call_abort_def Let_def split: ConnectionState.splits)

lemma rx_frame_on_timer_re_tx:
  "on_timer_re_tx E c = Some c' \<Longrightarrow> rx_buf c' = rx_buf c \<and> connection_state c' = connection_state c"
  by (auto simp: on_timer_re_tx_def Let_def bind_eq_Some_conv split: ConnectionState.splits list.splits)

lemma rx_frame_on_time_tick:
  assumes H: "on_time_tick E time c = Some c'"
  shows "rx_frame c c'"
proof -
  from H obtain c1 c2 where
    c1: "(if expired (timer_re_tx (timers c)) time
       then on_timer_re_tx E (c\<lparr>timers := (timers c)\<lparr>timer_re_tx := None\<rparr>\<rparr>) else Some c) = Some c1"
    and c2: "(if expired (timer_timewait (timers c1)) time
       then on_timer_timewait E (c1\<lparr>timers := (timers c1)\<lparr>timer_timewait := None\<rparr>\<rparr>) else Some c1)
       = Some c2"
    and c': "c' = (if expired (timer_usertime (timers c2)) time
       then on_timer_usertime E (c2\<lparr>timers := (timers c2)\<lparr>timer_usertime := None\<rparr>\<rparr>) else c2)"
    by (auto simp: on_time_tick_def bind_eq_Some_conv)
  have 1: "rx_buf c1 = rx_buf c" "connection_state c1 = connection_state c"
    using c1 rx_frame_on_timer_re_tx [of E "c\<lparr>timers := tm\<rparr>" c1 for tm] by (auto split: if_splits)
  have "rx_frame c c2"
  proof (cases "expired (timer_timewait (timers c1)) time")
    case True
    with c2 show ?thesis by (auto simp: on_timer_timewait_def bind_assert_eq_Some)
  qed (use c2 1 in \<open>auto simp: rx_frame_def\<close>)
  with c' show ?thesis by (auto simp: on_timer_usertime_def)
qed

section \<open>Reading\<close>

text \<open>The bytes a call to \<open>recv\<close> puts in the caller's buffer.\<close>

definition read_by :: "('a, 't::linorder) env \<Rightarrow> 't conn_op \<Rightarrow> ('a, 't) Connection \<Rightarrow> u8 list" where
  "read_by E x c = (case x of
      DoRecv buf \<Rightarrow> (case call_recv E buf c of Some (Inr n, out, _) \<Rightarrow> take n out | _ \<Rightarrow> [])
    | _ \<Rightarrow> [])"

lemma read_by_simps [simp]:
  "read_by E DoConnect c = []" "read_by E (DoSend bytes) c = []" "read_by E DoShutdown c = []"
  "read_by E DoClose c = []" "read_by E DoAbort c = []" "read_by E (Segment seg) c = []"
  "read_by E (Tick t) c = []"
  by (simp_all add: read_by_def)

lemma rcv_kept:
  assumes "rx_kept rx c'" and "as = [iss]" and "rx_holds ended iss W R rx" and "isns c' \<noteq> []"
  shows "rcv_ok ended as W R c'"
  using assms rx_holds_prefix [OF assms(3)] by (auto simp: rcv_ok_def rx_kept_def synced_def)

lemma call_recv_cases:
  assumes H: "call_recv E buf c = Some (r, out, c')"
  obtains (none) "c' = c" "case r of Inr n \<Rightarrow> n = 0 | _ \<Rightarrow> True"
  | (suspend) w k where "retry_after E w c = Some (r, c')" "r = Err (RetryAfter k)"
  | (read) bytes b where "synced (connection_state c)"
      "rx_read_bytes (length buf) (rx_buf c) = Some (bytes, b)" "r = Ok (length bytes)"
      "take (length bytes) out = bytes" "rx_kept b c'" "evolves E c c'"
proof -
  have sus: thesis if "retry_after E w c = Some (r, c')" for w
  proof -
    from that obtain k where "r = Err (RetryAfter k)"
      by (auto simp: retry_after_def return_retry_after_def bind_eq_Some_conv)
    with that show thesis by (rule suspend)
  qed
  show thesis
  proof (cases "connection_state c")
    case (Established t rx cc ca)
    show thesis
    proof (cases rx)
      case Closed
      with H Established none show thesis by (auto simp: call_recv_def)
    next
      case Open
      show thesis
      proof (cases "length buf \<le> rx_available_bytes (rx_buf c)")
        case True
        with H Established Open obtain bytes b where b: "rx_read_bytes (length buf) (rx_buf c) = Some (bytes, b)"
          "r = Ok (length bytes)" "out = bytes" "c' = c\<lparr>rx_buf := b\<rparr>"
          by (auto simp: call_recv_def Let_def bind_eq_Some_conv panic_simps)
        show thesis
          by (rule read [OF _ b(1,2)])
            (use b Established in \<open>auto simp: rx_kept_def intro: evolves_intros\<close>)
      next
        case False
        with H Established Open sus show thesis
          by (auto simp: call_recv_def Let_def bind_eq_Some_conv)
      qed
    next
      case Fin
      with H Established obtain bytes b where b: "rx_read_bytes (length buf) (rx_buf c) = Some (bytes, b)"
          "r = Ok (length bytes)" "out = bytes @ drop (length bytes) buf"
        and s: "(if length bytes < length buf
                 then set_state E (ConnectionState.Established t ChannelState.Closed cc ca) (c\<lparr>rx_buf := b\<rparr>)
                 else Some (c\<lparr>rx_buf := b\<rparr>)) = Some c'"
        by (auto simp: call_recv_def Let_def bind_eq_Some_conv)
      have "rx_kept b c' \<and> evolves E c c'"
      proof (cases "length bytes < length buf")
        case True
        with s have S: "set_state E (ConnectionState.Established t ChannelState.Closed cc ca)
            (c\<lparr>rx_buf := b\<rparr>) = Some c'" by simp
        have "evolves E c c'" by (rule evolves_set_state [OF S]) (auto intro: evolves_intros)
        with set_state_rx [OF S] show ?thesis by simp
      next
        case False
        with s have "c' = c\<lparr>rx_buf := b\<rparr>" by simp
        with Established show ?thesis by (auto simp: rx_kept_def intro: evolves_intros)
      qed
      with b Established show thesis by (intro read [OF _ b(1,2)]) auto
    qed
  qed (use H none sus in \<open>auto simp: call_recv_def Let_def bind_eq_Some_conv\<close>)
qed

lemma rcv_call_recv:
  assumes H: "call_recv E buf c = Some (r, out, c')" and R: "rcv_ok ended as W R c"
  shows "rcv_ok ended as W (R @ (case r of Inr n \<Rightarrow> take n out | _ \<Rightarrow> [])) c'"
  using H
proof (cases rule: call_recv_cases)
  case none
  then show ?thesis using R by (auto split: sum.splits)
next
  case (suspend w k)
  then have "rcv_ok ended as W R c'"
    by (elim retry_after_frame) (use R in \<open>auto intro: rcv_same\<close>)
  with suspend show ?thesis by simp
next
  case (read bytes b)
  from R read(1) obtain iss where i: "as = [iss]" "rx_holds ended iss W R (rx_buf c)" "isns c \<noteq> []"
    by (auto simp: rcv_ok_def synced_def)
  have "isns c' \<noteq> []" using isns_grow [OF read(6)] i(3) by auto
  with rcv_kept [OF read(5) i(1) rx_holds_read [OF read(2) i(2)]] read show ?thesis by simp
qed

section \<open>The receiver as a machine\<close>

lemma rcv_on_segment_listen:
  assumes H: "on_segment_listen E seg c = Some c'" and R: "rcv_ok ended as W R c"
    and st: "connection_state c = ConnectionState.Listen" and p: "from_peer ended as W seg"
    and one: "length (isns c') \<le> 1" "length as \<le> 1"
  shows "rcv_ok ended as W R c'"
proof (cases "flags_contains (flags seg) RST \<or> flags_contains (flags seg) ACK \<or>
    \<not> flags_contains (flags seg) SYN")
  case True
  with H R show ?thesis by (auto simp: on_segment_listen_def split: if_splits intro: rcv_same)
next
  case False
  have c': "connection_state c' = SynReceived" "ackd (rx_buf c') = seqn seg + 1"
    "isns c' = isns c @ [new_seqn E (user_data c)]"
    using H False
    by (auto simp: on_segment_listen_def set_state_not_closing user_new_seqn_def Let_def
        bind_assert_eq_Some history_simps)
  have "isns c = []" using c'(3) one(1) by simp
  then have "R = []" using R by (simp add: rcv_ok_def)
  moreover have "\<exists>iss. as = [iss] \<and> seqn seg = iss"
    using p False one(2) by (auto simp: from_peer_def plain_def seg_ok_def split: list.splits)
  ultimately show ?thesis using c' by (auto simp: rcv_ok_def)
qed

lemma rcv_on_segment_syn_sent:
  assumes H: "on_segment_syn_sent E seg c = Some c'" and R: "rcv_ok ended as W R c" and ok: "conn_wf c"
    and st: "connection_state c = SynSent" and p: "from_peer ended as W seg"
    and i: "isns c' \<noteq> []" "length as \<le> 1"
  shows "rcv_ok ended as W R c'"
proof -
  have e: "R = []" "rx_stream (rx_buf c) = []" "\<not> rx_fin (rx_buf c)"
    using R ok st by (auto simp: rcv_ok_def conn_ok_def rx_ok_def)
  let ?c1 = "clear_re_tx_range E (ackn seg) (c\<lparr>rx_buf := rx_init (seqn seg) (rx_buf c)\<rparr>)"
  define c2 where "c2 = ?c1\<lparr>tx_buf := (tx_buf ?c1)\<lparr>unack := ackn seg, tx_window := window seg\<rparr>\<rparr>"
  have c2: "connection_state c2 = SynSent" "rx_buf c2 = rx_init (seqn seg) (rx_buf c)"
    by (simp_all add: c2_def st)
  consider (synack) "flags_contains (flags seg) SYN"
      "c' = c2 \<or> send_ack E (enter_state E FULLY_OPEN c2) = Some c'"
    | (reset) "c' = reset E c" | (same) "connection_state c' = SynSent" "rx_buf c' = rx_buf c"
  proof (cases "flags_contains (flags seg) (flags_or SYN ACK) \<and> \<not> flags_contains (flags seg) RST \<and>
      in_range_inclusive (ackn seg) (unack (tx_buf c)) (tx_next (tx_buf c))")
    case True
    with H have "c' = c2 \<or> send_ack E (enter_state E FULLY_OPEN c2) = Some c'"
      by (simp add: on_segment_syn_sent_def Let_def set_state_not_closing c2_def flag_simps FULLY_OPEN_def
          split: if_splits)
    with True synack show thesis by (simp add: flag_simps)
  next
    case False
    with H st reset same show thesis by (auto simp: on_segment_syn_sent_def flag_simps split: if_splits)
  qed
  then show ?thesis
  proof cases
    case synack
    have iss: "as = [seqn seg]"
      using p synack(1) i(2) by (auto simp: from_peer_def plain_def seg_ok_def split: list.splits)
    from synack(2) show ?thesis
    proof
      assume "c' = c2"
      with c2 i(1) e(1) show ?thesis by (simp add: rcv_ok_def)
    next
      assume s: "send_ack E (enter_state E FULLY_OPEN c2) = Some c'"
      have "can_ack (enter_state E FULLY_OPEN c2)" by (simp add: can_ack_def)
      then have "rx_frame (enter_state E FULLY_OPEN c2) c'"
        by (intro rx_frame_send_ack [OF s]) (auto simp: FULLY_OPEN_def)
      then have q: "quiet (connection_state c') \<or>
          synced (connection_state c') \<and> rx_buf c' = rx_init (seqn seg) (rx_buf c)"
        using c2 by (auto simp: rx_frame_def)
      have "rx_holds ended (seqn seg) W [] (rx_init (seqn seg) (rx_buf c))"
        using e by (intro rx_holds_init) auto
      with q i(1) e(1) iss show ?thesis
        by (auto simp: rcv_ok_def synced_def handshaking_def)
    qed
  next
    case reset
    with R i(1) show ?thesis by (intro rcv_quiet [OF R]) auto
  next
    case same
    with R i(1) show ?thesis by (intro rcv_same [OF R]) (auto simp: st)
  qed
qed

lemma rcv_on_segment_synchronized:
  assumes H: "on_segment_synchronized E seg c = Some c'" and R: "rcv_ok ended as W R c" and ok: "conn_wf c"
    and st: "\<not> quiet (connection_state c)" "connection_state c \<noteq> SynSent"
    and s: "roomy c" "seg_len seg < 2 ^ 32" "not_stray E seg c"
    and p: "from_peer ended as W seg" and i: "isns c' \<noteq> []" and W: "length W < 2 ^ 32"
  shows "rcv_ok ended as W R c'"
proof -
  from on_segment_synchronized_rx [OF H ok st s]
  consider (frame) "rx_frame c c'"
    | (stored) "synced (connection_state c')" "fits seg (rx_buf c)" "\<not> flags_contains (flags seg) SYN"
      "stored (debug_assertions E) seg (rx_buf c) (rx_buf c')"
    using st(2) by (auto simp: rx_frame_def)
  then show ?thesis
  proof cases
    case frame
    with i rcv_frame [OF R _ ok st(1)] show ?thesis by blast
  next
    case stored
    obtain iss where iss: "as = [iss]" "rx_holds ended iss W R (rx_buf c)"
    proof (cases "synced (connection_state c)")
      case True
      with R that show thesis by (auto simp: rcv_ok_def)
    next
      case False
      with st have sr: "connection_state c = SynReceived" by (cases "connection_state c") auto
      have "rx_stream (rx_buf c) = []" "\<not> rx_fin (rx_buf c)"
        using ok sr by (simp_all add: conn_ok_def rx_ok_def)
      with R sr that show thesis by (auto simp: rcv_ok_def intro: rx_holds_init)
    qed
    have "seg_ok iss W seg" "flags_contains (flags seg) FIN \<longrightarrow> ended"
      using p iss(1) by (simp_all add: from_peer_def)
    from rx_holds_stored [OF stored(4,2,3) this iss(2) W] stored(1) iss(1) i
    show ?thesis by (intro rcv_kept [of "rx_buf c'"]) (auto simp: rx_kept_def)
  qed
qed

text \<open>A connection that is not open stays so, but for a call to \<open>connect\<close> and a SYN.\<close>

lemma quiet_call:
  assumes H: "conn_step E x c = Some (r, c')" and ok: "conn_wf c" and q: "quiet (connection_state c)"
    and x: "x \<noteq> DoConnect" "\<forall>seg. x \<noteq> Segment seg"
  shows "quiet (connection_state c')"
proof -
  have tm: "timers c = Timers_default" using ok q by (simp add: quiet_conn_ok)
  show ?thesis
  proof (cases x)
    case (Tick t)
    with H tm q show ?thesis by (auto simp: on_time_tick_def expired_def)
  next
    case (DoRecv buf)
    with H obtain out where "call_recv E buf c = Some (r, out, c')" by auto
    then show ?thesis
      by (cases rule: call_recv_cases) (use q in \<open>auto simp: synced_def elim!: retry_after_frame\<close>)
  qed (use H q x in \<open>auto simp: quiet_def apfst_def call_abort_def call_send_def call_shutdown_def
      call_close_def bind_assert_eq_Some\<close>)
qed

lemma rcv_step:
  assumes H: "conn_step E x c = Some (r, c')" and R: "rcv_ok ended as W R c" and ok: "conn_wf c"
    and s: "sound_op E x c" and one: "length (isns c') \<le> 1" "length as \<le> 1" and W: "length W < 2 ^ 32"
    and p: "\<forall>seg. x = Segment seg \<longrightarrow> from_peer ended as W seg"
  shows "rcv_ok ended as W (R @ read_by E x c) c'"
proof -
  obtain d where d: "isns c' = isns c @ d" using isns_step [OF H] by auto
  then have i: "isns c' = [] \<longrightarrow> isns c = []" by simp
  have ni: "\<not> quiet (connection_state c) \<Longrightarrow> isns c' \<noteq> []" using R i by (auto simp: rcv_ok_def)
  have frame: "rcv_ok ended as W R c'" if "rx_frame c c'" "\<not> quiet (connection_state c)"
    using that by (intro rcv_frame [OF R _ ok _ i])
  have quiet: "rcv_ok ended as W R c'" if "quiet (connection_state c')"
    using that by (intro rcv_quiet [OF R _ i])
  have plain: "rcv_ok ended as W R c'"
    if "rx_frame c c'" "x \<noteq> DoConnect" "\<forall>seg. x \<noteq> Segment seg"
    using frame [OF that(1)] quiet quiet_call [OF H ok _ that(2,3)] by blast
  show ?thesis
  proof (cases x)
    case DoConnect
    show ?thesis
    proof (cases "connection_state c = ConnectionState.Closed \<or> connection_state c = Reset")
      case False
      with DoConnect H R show ?thesis by (auto simp: call_connect_def apfst_def)
    next
      case True
      have "isns c' = isns c @ [new_seqn E (user_data (enter_state E SynSent c))] \<and> connection_state c' = SynSent"
        using DoConnect H True
        by (auto simp: call_connect_def set_state_not_closing user_new_seqn_def Let_def history_simps
            apfst_def elim!: continue_after_frame)
      moreover have "isns c = []" using calculation one(1) by simp
      ultimately show ?thesis using R DoConnect by (auto simp: rcv_ok_def)
    qed
  next
    case (Segment seg)
    with H have g: "on_segment E seg c = Some c'" by auto
    have q: "roomy c" "seg_len seg < 2 ^ 32" "not_stray E seg c"
      using s Segment by (auto simp: sound_op_def)
    have fp: "from_peer ended as W seg" using p Segment by simp
    have closed: "rcv_ok ended as W R c'" if "on_segment_closed seg c = Some c'" "quiet (connection_state c)"
      using that by (intro quiet) (auto simp: on_segment_closed_def bind_eq_Some_conv split: option.splits)
    have sync: "rcv_ok ended as W R c'"
      if "on_segment_synchronized E seg c = Some c'" "\<not> quiet (connection_state c)" "connection_state c \<noteq> SynSent"
      using that by (intro rcv_on_segment_synchronized [OF _ R ok _ _ q fp ni W])
    have "rcv_ok ended as W R c'"
      using g closed sync rcv_on_segment_listen [OF _ R _ fp one]
        rcv_on_segment_syn_sent [OF _ R ok _ fp ni one(2)]
      by (cases "connection_state c") (simp_all add: on_segment_def)
    with Segment show ?thesis by simp
  next
    case (DoRecv buf)
    with H obtain out where o: "call_recv E buf c = Some (r, out, c')" by auto
    from rcv_call_recv [OF o R] show ?thesis by (cases r) (simp_all add: DoRecv read_by_def o)
  next
    case (DoSend bytes)
    with H obtain q where "call_send E bytes c = Some (q, c')" by (auto simp: apfst_def)
    with DoSend plain rx_frame_call_send [OF _ ok] show ?thesis by auto
  next
    case DoAbort
    with H plain show ?thesis by (cases "call_abort E c") (auto intro: rx_frame_call_abort)
  next
    case DoShutdown
    with H plain show ?thesis by (auto simp: apfst_def intro: rx_frame_call_shutdown)
  next
    case DoClose
    with H plain show ?thesis by (auto simp: apfst_def intro: rx_frame_call_close)
  next
    case (Tick t)
    with H plain show ?thesis by (auto intro: rx_frame_on_time_tick)
  qed
qed

end
