(* ===== verification/Tcp_Transfer.thy ===== *)
theory Tcp_Transfer
  imports Tcp_Receiver Tcp_Run
begin

text \<open>
  Two connections over a network that may lose, duplicate, delay and reorder segments but does
  not forge them, and the theorem the protocol exists for: what one side reads is what the
  other side wrote, in order, and the end of the stream is reported only after all of it.
\<close>

section \<open>The system\<close>

text \<open>A connection as the user made it, or as \<open>accept\<close> makes it.\<close>

definition fresh_conn :: "('a, 't::linorder) env \<Rightarrow> ('a, 't) Connection \<Rightarrow> bool" where
  "fresh_conn E c \<longleftrightarrow> (\<exists>a opt. c = (Connection_new a [])\<lparr>options := opt\<rparr> \<or>
     set_state E ConnectionState.Listen ((Connection_new a [])\<lparr>options := opt\<rparr>) = Some c)"

definition sent_by :: "('a, 't) Connection \<Rightarrow> SegmentMeta \<Rightarrow> bool" where
  "sent_by c seg \<longleftrightarrow> seg \<in> snd ` set (sent_segments (user_data c))"

text \<open>
  \<open>transfer Ea Eb a b W R\<close>: the sender is in state \<open>a\<close> and its user has written \<open>W\<close>, the
  receiver is in state \<open>b\<close> and its user has read \<open>R\<close>. The sender may be called and may receive
  anything; the receiver may be called, and receives segments the sender has sent at some time.
\<close>

inductive transfer ::
  "('a, 't::linorder) env \<Rightarrow> ('b, 'u::linorder) env \<Rightarrow> ('a, 't) Connection \<Rightarrow> ('b, 'u) Connection
     \<Rightarrow> u8 list \<Rightarrow> u8 list \<Rightarrow> bool" for Ea Eb where
  start: "fresh_conn Ea a \<Longrightarrow> fresh_conn Eb b \<Longrightarrow> transfer Ea Eb a b [] []"
| sender: "transfer Ea Eb a b W R \<Longrightarrow> sound_op Ea x a \<Longrightarrow> conn_step Ea x a = Some (r, a') \<Longrightarrow>
    transfer Ea Eb a' b (W @ accepted x r) R"
| receiver: "transfer Ea Eb a b W R \<Longrightarrow> sound_op Eb y b \<Longrightarrow> \<forall>seg. y = Segment seg \<longrightarrow> sent_by a seg \<Longrightarrow>
    conn_step Eb y b = Some (q, b') \<Longrightarrow> transfer Ea Eb a b' W (R @ read_by Eb y b)"

section \<open>The invariant\<close>

definition ended :: "('a, 't) Connection \<Rightarrow> bool" where
  "ended c \<longleftrightarrow> (\<exists>seg. sent_by c seg \<and> flags_contains (flags seg) FIN)"

lemma sent_step:
  assumes "conn_step E x c = Some (r, c')"
  shows "sent_by c seg \<Longrightarrow> sent_by c' seg"
  using accounted_conn_step [OF assms] by (auto simp: accounted_def evolves_def sent_by_def)

lemma ended_step: "conn_step E x c = Some (r, c') \<Longrightarrow> ended c \<Longrightarrow> ended c'"
  by (auto simp: ended_def intro: sent_step)

lemma ended_fin_emitted: "ended c \<Longrightarrow> fin_emitted c"
  by (auto simp: ended_def fin_emitted_def sent_by_def emitted_def)

lemma sent_from_peer:
  assumes "snd_ok W a" and "sent_by a seg"
  shows "from_peer (ended a) (isns a) W seg"
proof -
  have "seg \<in> emitted a" using assms(2) by (simp add: sent_by_def emitted_def)
  with assms show ?thesis
    by (auto simp: from_peer_def snd_ok_def sends_def ended_def split: list.splits)
qed

lemma rx_holds_grow:
  assumes "rx_holds e iss W R rx" and "e \<longrightarrow> e'" and "e \<longrightarrow> bytes = []"
  shows "rx_holds e' iss (W @ bytes) R rx"
proof -
  from assms(1) obtain n where "n \<le> length W" "R @ rx_stream rx = take n W"
    "ackd rx = iss + 1 + as_u32 n + of_bool (rx_fin rx)" "rx_fin rx \<longrightarrow> n = length W \<and> e"
    by (auto simp: rx_holds_def)
  then show ?thesis using assms(2,3) unfolding rx_holds_def by (intro exI [of _ n]) auto
qed

lemma rcv_grow:
  assumes R: "rcv_ok e as W R c" and as: "length (as @ d) \<le> 1" and e: "e \<longrightarrow> e'" "e \<longrightarrow> bytes = []"
  shows "rcv_ok e' (as @ d) (W @ bytes) R c"
proof -
  from R obtain n where "R = take n W" by (auto simp: rcv_ok_def)
  then have "R = take (min n (length W)) (W @ bytes)" by (simp add: min_def)
  moreover have "as = [iss] \<Longrightarrow> as @ d = [iss]" for iss using as by simp
  ultimately show ?thesis
    using R rx_holds_grow [OF _ e] unfolding rcv_ok_def by metis
qed

definition transfer_ok ::
  "('a, 't) Connection \<Rightarrow> ('b, 'u) Connection \<Rightarrow> u8 list \<Rightarrow> u8 list \<Rightarrow> bool" where
  "transfer_ok a b W R \<longleftrightarrow> conn_wf a \<and> conn_wf b \<and>
     (length (isns a) \<le> 1 \<and> length (isns b) \<le> 1 \<and> length W < 2 ^ 32 \<longrightarrow>
        snd_ok W a \<and> rcv_ok (ended a) (isns a) W R b)"

lemma fresh_conn_wf: "fresh_conn E c \<Longrightarrow> conn_wf c"
  by (auto simp: fresh_conn_def intro!: reachable_wf [of E] intro: reachable.made reachable.accepting)

lemma fresh_conn_ok:
  assumes "fresh_conn E c"
  shows "snd_ok [] c" and "rcv_ok e as [] [] c"
proof -
  show "snd_ok [] c" using assms by (auto simp: fresh_conn_def snd_ok_new intro: snd_ok_accepting)
  show "rcv_ok e as [] [] c"
    using assms by (auto simp: fresh_conn_def rcv_ok_def set_state_not_closing)
qed

lemma transfer_invariant: "transfer Ea Eb a b W R \<Longrightarrow> transfer_ok a b W R"
proof (induction rule: transfer.induct)
  case (start a b)
  then show ?case by (simp add: transfer_ok_def fresh_conn_wf fresh_conn_ok)
next
  case (sender a b W R x r a')
  have wf: "conn_wf a" "conn_wf b" using sender.IH by (simp_all add: transfer_ok_def)
  obtain d where d: "isns a' = isns a @ d" using isns_step [OF sender.hyps(3)] by auto
  have "snd_ok (W @ accepted x r) a' \<and> rcv_ok (ended a') (isns a') (W @ accepted x r) R b"
    if one: "length (isns a') \<le> 1" "length (isns b) \<le> 1" "length (W @ accepted x r) < 2 ^ 32"
  proof -
    have ih: "snd_ok W a" "rcv_ok (ended a) (isns a) W R b"
      using sender.IH one d by (auto simp: transfer_ok_def)
    note S = snd_ok_step [OF sender.hyps(3) ih(1) wf(1) sender.hyps(2) one(1)]
    have "ended a \<longrightarrow> accepted x r = []" using S(2) ended_fin_emitted by blast
    with S(1) rcv_grow [OF ih(2), of d] one(1) ended_step [OF sender.hyps(3)] show ?thesis
      by (simp add: d)
  qed
  then show ?case
    using conn_step_ok [OF sender.hyps(3) wf(1) sender.hyps(2)] wf(2) by (simp add: transfer_ok_def)
next
  case (receiver a b W R y q b')
  have wf: "conn_wf a" "conn_wf b" using receiver.IH by (simp_all add: transfer_ok_def)
  obtain d where d: "isns b' = isns b @ d" using isns_step [OF receiver.hyps(4)] by auto
  have "snd_ok W a \<and> rcv_ok (ended a) (isns a) W (R @ read_by Eb y b) b'"
    if one: "length (isns a) \<le> 1" "length (isns b') \<le> 1" "length W < 2 ^ 32"
  proof -
    have ih: "snd_ok W a" "rcv_ok (ended a) (isns a) W R b"
      using receiver.IH one d by (auto simp: transfer_ok_def)
    have "\<forall>seg. y = Segment seg \<longrightarrow> from_peer (ended a) (isns a) W seg"
      using receiver.hyps(3) sent_from_peer [OF ih(1)] by blast
    with rcv_step [OF receiver.hyps(4) ih(2) wf(2) receiver.hyps(2) one(2,1,3)] ih(1)
    show ?thesis by simp
  qed
  then show ?case
    using conn_step_ok [OF receiver.hyps(4) wf(2) receiver.hyps(2)] wf(1) by (simp add: transfer_ok_def)
qed

section \<open>Running the system\<close>

text \<open>
  The system as a function, to evaluate it on concrete runs. \<open>Forth i\<close> and \<open>Back i\<close> deliver
  the segment that the sender or the receiver sent as its number \<open>i\<close>.
\<close>

datatype ('t, 'u) action =
    SenderDoes "'t conn_op" | ReceiverDoes "'u conn_op" | Forth nat | Back nat

definition sender_does ::
  "('a, 't::linorder) env \<Rightarrow> 't conn_op \<Rightarrow> ('a, 't) Connection \<times> 'c \<times> u8 list \<times> 'r
     \<Rightarrow> (('a, 't) Connection \<times> 'c \<times> u8 list \<times> 'r) option" where
  "sender_does E x s = (case s of (a, b, W, R) \<Rightarrow>
     if sound_op E x a
     then map_option (\<lambda>(r, a'). (a', b, W @ accepted x r, R)) (conn_step E x a) else None)"

definition receiver_does ::
  "('b, 'u::linorder) env \<Rightarrow> 'u conn_op \<Rightarrow> 'c \<times> ('b, 'u) Connection \<times> 'w \<times> u8 list
     \<Rightarrow> ('c \<times> ('b, 'u) Connection \<times> 'w \<times> u8 list) option" where
  "receiver_does E y s = (case s of (a, b, W, R) \<Rightarrow>
     if sound_op E y b
     then map_option (\<lambda>(q, b'). (a, b', W, R @ read_by E y b)) (conn_step E y b) else None)"

fun transfer_exec ::
  "('a, 't::linorder) env \<Rightarrow> ('b, 'u::linorder) env \<Rightarrow> ('t, 'u) action
     \<Rightarrow> ('a, 't) Connection \<times> ('b, 'u) Connection \<times> u8 list \<times> u8 list
     \<Rightarrow> (('a, 't) Connection \<times> ('b, 'u) Connection \<times> u8 list \<times> u8 list) option" where
  "transfer_exec Ea Eb (SenderDoes x) s = sender_does Ea x s"
| "transfer_exec Ea Eb (ReceiverDoes y) s =
     (case y of Segment _ \<Rightarrow> None | _ \<Rightarrow> receiver_does Eb y s)"
| "transfer_exec Ea Eb (Forth i) s =
     (let segs = sent_segments (user_data (fst s)) in
      if i < length segs then receiver_does Eb (Segment (snd (segs ! i))) s else None)"
| "transfer_exec Ea Eb (Back i) s =
     (let segs = sent_segments (user_data (fst (snd s))) in
      if i < length segs then sender_does Ea (Segment (snd (segs ! i))) s else None)"

fun transfer_run ::
  "('a, 't::linorder) env \<Rightarrow> ('b, 'u::linorder) env \<Rightarrow> ('t, 'u) action list
     \<Rightarrow> ('a, 't) Connection \<times> ('b, 'u) Connection \<times> u8 list \<times> u8 list
     \<Rightarrow> (('a, 't) Connection \<times> ('b, 'u) Connection \<times> u8 list \<times> u8 list) option" where
  "transfer_run Ea Eb [] s = Some s"
| "transfer_run Ea Eb (x # xs) s = Option.bind (transfer_exec Ea Eb x s) (transfer_run Ea Eb xs)"

lemma sender_does_transfer:
  assumes "sender_does Ea x (a, b, W, R) = Some (a', b', W', R')" and "transfer Ea Eb a b W R"
  shows "transfer Ea Eb a' b' W' R'"
  using assms by (auto simp: sender_does_def split: if_splits intro: transfer.sender)

lemma receiver_does_transfer:
  assumes "receiver_does Eb y (a, b, W, R) = Some (a', b', W', R')" and "transfer Ea Eb a b W R"
    and "\<forall>seg. y = Segment seg \<longrightarrow> sent_by a seg"
  shows "transfer Ea Eb a' b' W' R'"
  using assms by (auto simp: receiver_does_def split: if_splits intro: transfer.receiver)

lemma transfer_exec_sound:
  assumes H: "transfer_exec Ea Eb x (a, b, W, R) = Some (a', b', W', R')" and T: "transfer Ea Eb a b W R"
  shows "transfer Ea Eb a' b' W' R'"
proof (cases x)
  case (ReceiverDoes y)
  with H T show ?thesis by (cases y) (auto elim!: receiver_does_transfer)
next
  case (Forth i)
  with H have i: "i < length (sent_segments (user_data a))"
    and r: "receiver_does Eb (Segment (snd (sent_segments (user_data a) ! i))) (a, b, W, R) = Some (a', b', W', R')"
    by (auto simp: Let_def split: if_splits)
  show ?thesis
    by (rule receiver_does_transfer [OF r T]) (use i nth_mem in \<open>auto simp: sent_by_def\<close>)
qed (use H T in \<open>auto simp: Let_def split: if_splits intro: sender_does_transfer\<close>)

lemma transfer_run_sound:
  assumes "transfer_run Ea Eb xs (a, b, W, R) = Some (a', b', W', R')" and "transfer Ea Eb a b W R"
  shows "transfer Ea Eb a' b' W' R'"
  using assms
proof (induction xs arbitrary: a b W R)
  case (Cons x xs)
  from Cons.prems(1) obtain a1 b1 W1 R1 where "transfer_exec Ea Eb x (a, b, W, R) = Some (a1, b1, W1, R1)"
    "transfer_run Ea Eb xs (a1, b1, W1, R1) = Some (a', b', W', R')"
    by (auto simp: bind_eq_Some_conv)
  with Cons.IH Cons.prems(2) show ?case by (blast intro: transfer_exec_sound)
qed simp

section \<open>Properties\<close>

lemmas transfer_defs = sender_does_def receiver_does_def sound_op_def not_stray_def roomy_def read_by_def
  accepted_def on_segment_listen_def call_send_def write_tx_def unack_has_space_def

text \<open>
  C1: end-to-end delivery. One connection sends to another over a network that loses,
  duplicates, delays and reorders segments; the sender may moreover receive anything, and both
  users make any calls and let any time pass. If each side was opened at most once and less than
  4 GiB were written, the bytes the receiving user has read, followed by those waiting in the
  receive buffer, are a prefix of the bytes the sending user has written: nothing is lost,
  duplicated, reordered or made up, wherever the sequence numbers wrap.
\<close>

theorem stream_is_delivered_in_order:
  assumes "transfer Ea Eb a b W R" and "length (isns a) \<le> 1" and "length (isns b) \<le> 1"
    and "length W < 2 ^ 32"
  shows "\<exists>rest. W = R @ rx_stream (rx_buf b) @ rest"
proof -
  have T: "transfer_ok a b W R" using assms(1) by (rule transfer_invariant)
  then have ok: "conn_wf b" and rcv: "rcv_ok (ended a) (isns a) W R b"
    using assms(2-) by (simp_all add: transfer_ok_def)
  show ?thesis
  proof (cases "synced (connection_state b)")
    case True
    with rcv obtain iss n where "R @ rx_stream (rx_buf b) = take n W"
      by (auto simp: rcv_ok_def rx_holds_def)
    then have "W = (R @ rx_stream (rx_buf b)) @ drop n W" by simp
    then show ?thesis by (intro exI [of _ "drop n W"]) (simp only: append_assoc)
  next
    case False
    then have "rx_stream (rx_buf b) = []"
      using ok by (cases "connection_state b") (auto simp: conn_ok_def rx_ok_def)
    moreover from rcv obtain n where "R = take n W" by (auto simp: rcv_ok_def)
    ultimately show ?thesis by (intro exI [of _ "drop n W"]) simp
  qed
qed

definition demo_server :: "(nat, nat) Connection" where
  "demo_server = (Connection_new 7 [])\<lparr>connection_state := ConnectionState.Listen\<rparr>"

text \<open>The handshake, three bytes written and two read.\<close>

abbreviation demo_ops :: "(nat, nat) action list" where
  "demo_ops \<equiv> [SenderDoes DoConnect, Forth 0, Back 0, Forth 1, SenderDoes (DoSend [1, 2, 3]),
     Forth 2, ReceiverDoes (DoRecv [0, 0])]"

lemma demo_transfer_start: "transfer (demo_env True) (demo_env True) (Connection_new 9 []) demo_server [] []"
proof (rule transfer.start)
  have "(Connection_new a [] :: (nat, nat) Connection)\<lparr>options := SocketOptions_default\<rparr> = Connection_new a []" for a
    by (simp add: Connection_new_def)
  then have n: "Connection_new a [] = (Connection_new a [] :: (nat, nat) Connection)\<lparr>options := SocketOptions_default\<rparr>" for a
    by simp
  show "fresh_conn (demo_env True) (Connection_new 9 [])"
    unfolding fresh_conn_def using n by blast
  have "set_state (demo_env True) ConnectionState.Listen (Connection_new 7 []) = Some demo_server"
    by (simp add: set_state_not_closing enter_state_def out_clear_def established_triggers_def
        demo_server_def)
  then show "fresh_conn (demo_env True) demo_server"
    unfolding fresh_conn_def using n by metis
qed

theorem stream_is_delivered_in_order_witness:
  "\<exists>a b. transfer (demo_env True) (demo_env True) a b [1, 2, 3] [1, 2] \<and>
     rx_stream (rx_buf b) = [3] \<and> (\<exists>rest. [1, 2, 3] = [1, 2] @ rx_stream (rx_buf b) @ rest)"
proof -
  obtain a b where r: "transfer_run (demo_env True) (demo_env True) demo_ops
      (Connection_new 9 [], demo_server, [], []) = Some (a, b, [1, 2, 3], [1, 2])"
    and i: "isns a = [1000]" "isns b = [1000]" and s: "rx_stream (rx_buf b) = [3]"
    by (simp add: demo_server_def transfer_defs run_defs seg_len_def contents_def
        del: Connection_new_simps)
  from transfer_run_sound [OF r demo_transfer_start]
  have T: "transfer (demo_env True) (demo_env True) a b [1, 2, 3] [1, 2]" .
  have "\<exists>rest. [1, 2, 3] = [1, 2] @ rx_stream (rx_buf b) @ rest"
    by (rule stream_is_delivered_in_order [OF T]) (simp_all add: i)
  with T s show ?thesis by blast
qed

text \<open>
  C5: the end of the stream is the end. Under the same assumptions, when the receiving user has
  been told the end of the stream (its receive channel is closed, or it is in TIME-WAIT), it
  has read exactly what the sending user has written. And as soon as a FIN is buffered, the
  rest of the stream is buffered with it.
\<close>

theorem end_of_stream_means_everything_was_read:
  assumes "transfer Ea Eb a b W R" and "length (isns a) \<le> 1" and "length (isns b) \<le> 1"
    and "length W < 2 ^ 32" and "rx_fin (rx_buf b)"
  shows "R @ rx_stream (rx_buf b) = W \<and>
    (connection_state b = TimeWait \<or>
     (\<exists>t cc ca. connection_state b = ConnectionState.Established t ChannelState.Closed cc ca) \<longrightarrow> R = W)"
proof -
  have T: "transfer_ok a b W R" using assms(1) by (rule transfer_invariant)
  then have ok: "conn_wf b" and rcv: "rcv_ok (ended a) (isns a) W R b"
    using assms(2-4) by (simp_all add: transfer_ok_def)
  have "synced (connection_state b)"
    using ok assms(5) by (cases "connection_state b") (auto simp: conn_ok_def rx_ok_def)
  with rcv assms(5) have all: "R @ rx_stream (rx_buf b) = W"
    by (auto simp: rcv_ok_def rx_holds_def)
  moreover have "rx_stream (rx_buf b) = []"
    if "connection_state b = TimeWait \<or>
      (\<exists>t cc ca. connection_state b = ConnectionState.Established t ChannelState.Closed cc ca)"
    using that ok by (auto simp: conn_ok_def rx_ok_def)
  ultimately show ?thesis by auto
qed

theorem end_of_stream_means_everything_was_read_witness:
  "\<exists>a b. transfer (demo_env True) (demo_env True) a b [1, 2, 3] [1, 2, 3] \<and>
     connection_state b = ConnectionState.Established Open ChannelState.Closed False False \<and>
     [1, 2, 3] @ rx_stream (rx_buf b) = [1, 2, 3]"
proof -
  obtain a b where r: "transfer_run (demo_env True) (demo_env True)
      (demo_ops @ [Back 2, SenderDoes DoClose, Forth 4, ReceiverDoes (DoRecv [0, 0])])
      (Connection_new 9 [], demo_server, [], []) = Some (a, b, [1, 2, 3], [1, 2, 3])"
    and i: "isns a = [1000]" "isns b = [1000]" and s: "rx_fin (rx_buf b)"
    "connection_state b = ConnectionState.Established Open ChannelState.Closed False False"
    by (simp add: demo_server_def transfer_defs run_defs seg_len_def contents_def
        del: Connection_new_simps)
  from transfer_run_sound [OF r demo_transfer_start]
  have T: "transfer (demo_env True) (demo_env True) a b [1, 2, 3] [1, 2, 3]" .
  from end_of_stream_means_everything_was_read [OF T _ _ _ s(1)] i T s show ?thesis by auto
qed

end
