(* ===== verification/Tcp_Exchange.thy ===== *)
theory Tcp_Exchange
  imports Tcp_Receiver
begin

text \<open>
  A client and a server that exchange segments: a session is opened, and chunks of data are
  sent, lost, sent again, received, read and acknowledged. This theory follows one chunk from
  the client's queue to the server's reader and its acknowledgement back.
\<close>

section \<open>The system\<close>

text \<open>
  The last segment sent since the history was \<open>h\<close>, if any was sent: the only segments that
  are delivered below are those that the step before has sent.
\<close>

definition sent_since :: "('a, 't) history \<Rightarrow> ('a, 't) history \<Rightarrow> SegmentMeta option" where
  "sent_since h h' = (case drop (length (sent_segments h)) (sent_segments h') of
     [] \<Rightarrow> None
   | segs \<Rightarrow> Some (snd (last segs)))"

text \<open>
  Opening: the client connects, its SYN waits in the backlog until the server accepts, the
  SYN-ACK and the ACK are delivered.
\<close>

definition open_session ::
  "('a, 't) env \<Rightarrow> ('b, 'u) env \<Rightarrow> (('b, 'u) ListenSocket \<Rightarrow> ('b, 'u) history) \<Rightarrow> 'b
     \<Rightarrow> ('a, 't) Connection \<Rightarrow> ('b, 'u) ListenSocket
     \<Rightarrow> (('a, 't) Connection \<times> ('b, 'u) Connection) option" where
  "open_session Ea Eb make_user_data addr a server = do {
     (_, a1) \<leftarrow> call_connect Ea a;
     syn \<leftarrow> sent_since (user_data a) (user_data a1);
     (r, server) \<leftarrow> listen_accept Eb make_user_data (listen_on_segment Eb addr syn server);
     case r of
       Ok (_, b) \<Rightarrow> do {
         syn_ack \<leftarrow> sent_since (make_user_data server) (user_data b);
         a2 \<leftarrow> on_segment Ea syn_ack a1;
         ack \<leftarrow> sent_since (user_data a1) (user_data a2);
         b \<leftarrow> on_segment Eb ack b;
         Some (a2, b)
       }
     | Err _ \<Rightarrow> None
   }"

text \<open>
  The copy in flight is lost \<open>k\<close> times. Each time the timer expires, and what the connection
  sends then is the copy in flight; when it sends nothing there is none any more.
\<close>

fun lose ::
  "('a, 't::linorder) env \<Rightarrow> nat \<Rightarrow> SegmentMeta \<times> ('a, 't) Connection
     \<Rightarrow> (SegmentMeta \<times> ('a, 't) Connection) option" where
  "lose E 0 s = Some s"
| "lose E (Suc k) (seg, c) = do {
     deadline \<leftarrow> timer_re_tx (timers c);
     c' \<leftarrow> on_time_tick E deadline c;
     seg' \<leftarrow> sent_since (user_data c) (user_data c');
     lose E k (seg', c')
   }"

text \<open>
  One chunk: the client sends it, the first \<open>k\<close> copies are lost, the copy that the client
  sends after the last loss arrives, the server reads into a buffer of the same length, and the
  acknowledgement that the server sent for this copy arrives.
\<close>

definition send_chunk ::
  "('a, 't::linorder) env \<Rightarrow> ('b, 'u) env \<Rightarrow> u8 list \<times> nat
     \<Rightarrow> ('a, 't) Connection \<times> ('b, 'u) Connection
     \<Rightarrow> (u8 list \<times> ('a, 't) Connection \<times> ('b, 'u) Connection) option" where
  "send_chunk Ea Eb chunk s = (case (chunk, s) of ((bytes, k), (a, b)) \<Rightarrow> do {
     (_, a1) \<leftarrow> call_send Ea bytes a;
     seg \<leftarrow> sent_since (user_data a) (user_data a1);
     (seg, a2) \<leftarrow> lose Ea k (seg, a1);
     b1 \<leftarrow> on_segment Eb seg b;
     ack \<leftarrow> sent_since (user_data b) (user_data b1);
     (_, out, b2) \<leftarrow> call_recv Eb (replicate (length bytes) 0) b1;
     a3 \<leftarrow> on_segment Ea ack a2;
     Some (out, a3, b2)
   })"

fun send_chunks ::
  "('a, 't::linorder) env \<Rightarrow> ('b, 'u) env \<Rightarrow> (u8 list \<times> nat) list
     \<Rightarrow> ('a, 't) Connection \<times> ('b, 'u) Connection
     \<Rightarrow> (u8 list \<times> ('a, 't) Connection \<times> ('b, 'u) Connection) option" where
  "send_chunks Ea Eb [] s = Some ([], s)"
| "send_chunks Ea Eb (chunk # chunks) s = do {
     (out, s) \<leftarrow> send_chunk Ea Eb chunk s;
     (outs, s) \<leftarrow> send_chunks Ea Eb chunks s;
     Some (out @ outs, s)
   }"

section \<open>An open connection with nothing in flight\<close>

definition open_idle :: "('a, 't) Connection \<Rightarrow> bool" where
  "open_idle c \<longleftrightarrow> connection_state c = FULLY_OPEN \<and> tx_stream c = [] \<and> \<not> tx_fin_marked c \<and>
     re_tx (tx_buf c) = [] \<and> unack (tx_buf c) = tx_next (tx_buf c) \<and>
     rx_stream (rx_buf c) = [] \<and> \<not> rx_fin (rx_buf c) \<and> \<not> rx_done (rx_buf c) \<and>
     rx_window (rx_buf c) = INITIAL_WINDOW_SIZE \<and> timings c = Timings_default"

definition may_send :: "('a, 't) Connection \<Rightarrow> bool" where
  "may_send c \<longleftrightarrow> dup_ack_count c = 0 \<and> congestion_window c = INITIAL_WINDOW_SIZE \<and>
     3584 \<le> unat (tx_window (tx_buf c)) \<and> nagle_delay (options c) = 0 \<and> exp_backoff c = 1 \<and>
     timer_timewait (timers c) = None \<and> timer_usertime (timers c) = None"

definition linked :: "('a, 't) Connection \<Rightarrow> ('b, 'u) Connection \<Rightarrow> bool" where
  "linked a b \<longleftrightarrow> open_idle a \<and> may_send a \<and> open_idle b \<and> dup_ack_count b = 0 \<and>
     congestion_window b = INITIAL_WINDOW_SIZE \<and>
     ackd (rx_buf b) = tx_next (tx_buf a) \<and> ackd (rx_buf a) = tx_next (tx_buf b) \<and>
     (\<exists>s w. last_sent (tx_buf b) = Some (s, ackd (rx_buf b), w))"

section \<open>Steps of an open connection\<close>

lemma FULLY_OPEN_tx [simp]: "state_tx FULLY_OPEN = Open" "\<not> quiet FULLY_OPEN" "\<not> closing FULLY_OPEN"
  "\<not> handshaking FULLY_OPEN"
  by (simp_all add: FULLY_OPEN_def)

lemma can_ack_open [simp]: "connection_state c = FULLY_OPEN \<Longrightarrow> can_ack c"
  by (simp add: can_ack_def)

text \<open>\<open>send_ack\<close> with an empty queue sends at most a pure ACK.\<close>

lemma send_ack_nothing:
  assumes "can_ack c" and "tx_stream c = []" and fin: "\<not> ack_fin c"
  obtains c' q where "send_ack E c = Some c'" and "connection_state c' = connection_state c"
    and "rx_buf c' = rx_buf c" and "timings c' = timings c"
    and "exp_backoff c' = exp_backoff c" and "congestion_window c' = congestion_window c"
    and "dup_ack_count c' = dup_ack_count c" and "timers c' = timers c" and "options c' = options c"
    and "tx_buf c' = (tx_buf c)\<lparr>tx_queue := q, last_sent :=
           Some (tx_next (tx_buf c), ackd (rx_buf c), curr_window (rx_buf c))\<rparr>"
    and "contents q = []" and "fin q = tx_fin_marked c"
    and "sent_segments (user_data c') = sent_segments (user_data c) @
           (if last_sent (tx_buf c) = Some (tx_next (tx_buf c), ackd (rx_buf c), curr_window (rx_buf c))
            then [] else [(remote c, ack_segment c)])"
proof -
  have len: "seg_len (ack_segment c) = 0" using assms(2) fin by (simp add: seg_len_ack_segment)
  have dup: "ack_duplicate c \<longleftrightarrow>
      last_sent (tx_buf c) = Some (tx_next (tx_buf c), ackd (rx_buf c), curr_window (rx_buf c))"
    using len by (simp add: ack_duplicate_def seq_size_of_nat)
  have send: "on_send (ack_segment c) (tx_buf c) = (tx_buf c)\<lparr>last_sent :=
      Some (tx_next (tx_buf c), ackd (rx_buf c), curr_window (rx_buf c))\<rparr>"
    using len by (simp add: on_send_def seq_size_of_nat wrapping_add_def) (simp add: ack_segment_def)
  obtain c' q where S: "send_ack E c = Some c'" "evolves E c c'"
    "connection_state c' = (if ack_fin c then fin_state (connection_state c) else connection_state c)"
    "rx_buf c' = rx_buf c" "timings c' = timings c" "exp_backoff c' = exp_backoff c"
    "congestion_window c' = congestion_window c" "dup_ack_count c' = dup_ack_count c"
    "contents q = drop (ack_limit c) (tx_stream c)" "fin q = tx_fin_marked c"
    "tx_buf c' = (if ack_duplicate c then tx_buf c else on_send (ack_segment c) (tx_buf c))
           \<lparr>tx_queue := q\<rparr>"
    "sent_segments (user_data c') = sent_segments (user_data c) @
           (if ack_duplicate c then [] else [(remote c, ack_segment c)])"
    "\<not> ack_fin c \<and> tx_stream c = [] \<longrightarrow> timers c' = timers c"
    by (rule send_ack_spec [of c E]) (simp_all add: assms)
  have tx: "(if ack_duplicate c then tx_buf c else on_send (ack_segment c) (tx_buf c))\<lparr>tx_queue := q\<rparr>
    = (tx_buf c)\<lparr>tx_queue := q, last_sent :=
        Some (tx_next (tx_buf c), ackd (rx_buf c), curr_window (rx_buf c))\<rparr>"
  proof (cases "ack_duplicate c")
    case True
    with dup show ?thesis by (cases "tx_buf c") auto
  qed (simp add: send)
  have T: "tx_buf c' = (tx_buf c)\<lparr>tx_queue := q, last_sent :=
        Some (tx_next (tx_buf c), ackd (rx_buf c), curr_window (rx_buf c))\<rparr>"
    by (simp only: S(11) tx)
  show thesis
  proof (rule that [OF S(1)])
    show "options c' = options c" using S(2) by (simp add: evolves_def)
    show "contents q = []" using S(9) assms(2) by simp
  qed (use S(3-8,10,12,13) assms(2) fin dup T in simp_all)
qed

text \<open>An in-order segment that is not a SYN, FIN or RST, on an open connection.\<close>

definition in_order :: "SegmentMeta \<Rightarrow> ('a, 't) Connection \<Rightarrow> bool" where
  "in_order seg c \<longleftrightarrow> flags seg = ACK \<and> seqn seg = ackd (rx_buf c) \<and> length (data seg) \<le> MAX_SEGMENT_SIZE \<and>
     in_range_inclusive (ackn seg) (unack (tx_buf c)) (tx_next (tx_buf c))"

lemma in_order_accepted:
  assumes "seqn seg = ackd (rx_buf c)" and "seg_len seg \<le> MAX_SEGMENT_SIZE"
    and rx: "rx_stream (rx_buf c) = []" "\<not> rx_fin (rx_buf c)" "rx_window (rx_buf c) = INITIAL_WINDOW_SIZE"
  shows "check_segment_seq_ok c seg"
proof -
  have len: "seg_len seg \<le> 512" using assms(2) by (simp add: MAX_SEGMENT_SIZE_def)
  have "unat (curr_window (rx_buf c)) = 4096"
    using rx by (simp add: unat_curr_window INITIAL_WINDOW_SIZE_def)
  then have "curr_window (rx_buf c) \<noteq> 0" by auto
  moreover have "unat (seqn seg + seq_size seg - 1 - ackd (rx_buf c)) < window_bound"
    if "seq_size seg \<noteq> 0"
  proof -
    have "unat (seq_size seg - 1) = seg_len seg - 1"
      using that len unat_seq_size [of seg] by (simp add: unat_minus_one)
    then show ?thesis using assms(1) len by (simp add: window_bound_eq algebra_simps)
  qed
  ultimately show ?thesis
    by (simp add: check_segment_seq_ok_def in_window_unat [OF rx(3)] wrapping_add_def wrapping_sub_def
        assms(1) window_bound_eq)
qed

lemma on_segment_open:
  assumes st: "connection_state c = FULLY_OPEN" and o: "in_order seg c"
    and rx: "rx_stream (rx_buf c) = []" "\<not> rx_fin (rx_buf c)" "rx_window (rx_buf c) = INITIAL_WINDOW_SIZE"
  defines "c0 \<equiv> c\<lparr>tx_buf := (tx_buf c)\<lparr>tx_window := min (window seg) (congestion_window c)\<rparr>\<rparr>"
  shows "on_segment E seg c = do {
    c1 \<leftarrow> (if unack (tx_buf c) \<noteq> ackn seg then on_new_ack E seg c0 else Some c0);
    (_, c2) \<leftarrow> store_segment E seg c1;
    Some c2 }"
proof -
  have fl: "flags_contains (flags seg) ACK" "\<not> flags_contains (flags seg) RST"
    "\<not> flags_contains (flags seg) SYN" "\<not> flags_contains (flags seg) FIN"
    using o by (simp_all add: in_order_def flag_simps)
  then have acc: "check_segment_seq_ok c seg"
    using o rx by (intro in_order_accepted) (simp_all add: seg_len_def in_order_def)
  have c0: "connection_state c0 = FULLY_OPEN" "unack (tx_buf c0) = unack (tx_buf c)"
    "in_range_inclusive (ackn seg) (unack (tx_buf c)) (tx_next (tx_buf c0))"
    using o st by (simp_all add: c0_def in_order_def)
  let ?acked = "if unack (tx_buf c) \<noteq> ackn seg then on_new_ack E seg c0 else Some c0"
  have ack: "on_ack E seg c0 = Option.bind ?acked (store_segment E seg)"
  proof (cases ?acked)
    case (Some c1)
    then have "connection_state c1 = FULLY_OPEN"
      using st on_new_ack_frame(2) [of E seg c0 c1] by (auto simp: c0_def split: if_splits)
    then have "on_ack_of_fin E seg c1 = Some c1" by (simp add: on_ack_of_fin_def FULLY_OPEN_def)
    with Some c0 show ?thesis by (auto simp: on_ack_def)
  qed (use c0 in \<open>auto simp: on_ack_def split: if_splits\<close>)
  show ?thesis
    using on_segment_data [OF st [unfolded FULLY_OPEN_def] acc fl(1-3), of E] fl(4)
    by (simp add: Let_def c0_def [symmetric] ack case_prod_beta cong: if_cong)
qed

text \<open>The acknowledgement of the one segment in flight.\<close>

lemma on_new_ack_all:
  assumes "re_tx (tx_buf c) = [flying]" and "seqn_after flying = ackn seg"
    and "dup_ack_count c = 0" and "congestion_window c = INITIAL_WINDOW_SIZE" and "data seg = []"
  obtains c' where "on_new_ack E seg c = Some c'"
    and "connection_state c' = connection_state c" and "rx_buf c' = rx_buf c"
    and "tx_buf c' = (tx_buf c)\<lparr>re_tx := [], unack := ackn seg,
           tx_window := min (window seg) INITIAL_WINDOW_SIZE\<rparr>"
    and "dup_ack_count c' = 0" and "congestion_window c' = INITIAL_WINDOW_SIZE"
    and "timings c' = timings c" and "options c' = options c" and "exp_backoff c' = 1"
    and "timers c' = (timers c)\<lparr>timer_re_tx := None\<rparr>"
    and "sent_segments (user_data c') = sent_segments (user_data c)" and "remote c' = remote c"
proof -
  let ?c0 = "c\<lparr>tx_buf := (tx_buf c)\<lparr>tx_window := min (window seg) INITIAL_WINDOW_SIZE\<rparr>\<rparr>"
  have "window_update (debug_assertions E) seg c = Some ?c0"
    using assms(3-5) by (cases c) (simp add: window_update_def SLOW_START_TRESHOLD_def INITIAL_WINDOW_SIZE_def ovf_add_def)
  then have "on_new_ack E seg c =
    (let c = trigger_event E (readable (rx_available_bytes (rx_buf ?c0))) (Ok ()) ?c0;
           c = clear_re_tx_range E (ackn seg) c;
           c = c\<lparr>tx_buf := (tx_buf c)\<lparr>unack := ackn seg\<rparr>\<rparr>;
           c = c\<lparr>exp_backoff := 1\<rparr>;
           c = (if re_tx (tx_buf c) = [] then c\<lparr>timers := (timers c)\<lparr>timer_re_tx := None\<rparr>\<rparr>
                 else set_timer_re_tx E (rto (timings c)) c)
       in Some (trigger_event E (acknowledged_by (ackn seg)) (Ok ()) c))"
    unfolding on_new_ack_def by (simp add: Let_def)
  then obtain c' where r: "on_new_ack E seg c = Some c'" and c': "c' = 
    (let c = trigger_event E (readable (rx_available_bytes (rx_buf ?c0))) (Ok ()) ?c0;
           c = clear_re_tx_range E (ackn seg) c;
           c = c\<lparr>tx_buf := (tx_buf c)\<lparr>unack := ackn seg\<rparr>\<rparr>;
           c = c\<lparr>exp_backoff := 1\<rparr>;
           c = (if re_tx (tx_buf c) = [] then c\<lparr>timers := (timers c)\<lparr>timer_re_tx := None\<rparr>\<rparr>
                 else set_timer_re_tx E (rto (timings c)) c)
       in trigger_event E (acknowledged_by (ackn seg)) (Ok ()) c)"
    by (simp add: Let_def)
  show thesis
    by (rule that [OF r]) (use assms in \<open>simp_all add: c' Let_def\<close>)
qed


text \<open>The server stores a chunk, acknowledges it, and its user reads it.\<close>

lemma sent_since_snoc: "sent_segments h' = sent_segments h @ [(x, seg)] \<Longrightarrow> sent_since h h' = Some seg"
  by (simp add: sent_since_def)

lemma server_stores:
  assumes b: "open_idle b" "last_sent (tx_buf b) = Some (s, ackd (rx_buf b), w)"
    and seg: "in_order seg b" "ackn seg = unack (tx_buf b)" "data seg \<noteq> []"
  obtains b' where "on_segment E seg b = Some b'" and "connection_state b' = FULLY_OPEN"
    and "tx_stream b' = []" and "\<not> tx_fin_marked b'" and "re_tx (tx_buf b') = []"
    and "unack (tx_buf b') = tx_next (tx_buf b')" and "tx_next (tx_buf b') = tx_next (tx_buf b)"
    and "rx_stream (rx_buf b') = data seg" and "\<not> rx_fin (rx_buf b')" and "\<not> rx_done (rx_buf b')"
    and "rx_window (rx_buf b') = INITIAL_WINDOW_SIZE" and "timings b' = timings b"
    and "dup_ack_count b' = dup_ack_count b" and "congestion_window b' = congestion_window b"
    and "ackd (rx_buf b') = ackd (rx_buf b) + as_u32 (length (data seg))"
    and "last_sent (tx_buf b') = Some (tx_next (tx_buf b), ackd (rx_buf b'), curr_window (rx_buf b'))"
    and "sent_since (user_data b) (user_data b') = Some \<lparr>seqn = tx_next (tx_buf b), ackn = ackd (rx_buf b'),
           window = curr_window (rx_buf b'), flags = ACK, data = []\<rparr>"
proof -
  let ?n = "length (data seg)" and ?c0 = "b\<lparr>tx_buf := (tx_buf b)\<lparr>tx_window := min (window seg) (congestion_window b)\<rparr>\<rparr>"
  have idle: "connection_state b = FULLY_OPEN" "tx_stream b = []" "\<not> tx_fin_marked b" "re_tx (tx_buf b) = []"
    "unack (tx_buf b) = tx_next (tx_buf b)" "rx_stream (rx_buf b) = []" "\<not> rx_fin (rx_buf b)"
    "\<not> rx_done (rx_buf b)" "rx_window (rx_buf b) = INITIAL_WINDOW_SIZE"
    using b(1) by (simp_all add: open_idle_def)
  have fl: "\<not> flags_contains (flags seg) FIN" and size: "seq_size seg = as_u32 ?n"
    using seg(1) by (simp_all add: in_order_def flag_simps seq_size_of_nat seg_len_def)
  obtain rx where W: "rx_write (debug_assertions E) seg (rx_buf b) = Some rx"
    using fl idle by (simp add: rx_write_cases)
  note D = rx_writeD [OF W]
  let ?c1 = "?c0\<lparr>rx_buf := rx\<rparr>"
  obtain b' q where A: "send_ack E ?c1 = Some b'" "connection_state b' = connection_state ?c1" "rx_buf b' = rx"
    "timings b' = timings ?c1" "congestion_window b' = congestion_window ?c1" "dup_ack_count b' = dup_ack_count ?c1"
    "tx_buf b' = (tx_buf ?c1)\<lparr>tx_queue := q, last_sent :=
           Some (tx_next (tx_buf ?c1), ackd (rx_buf ?c1), curr_window (rx_buf ?c1))\<rparr>"
    "contents q = []" "fin q = tx_fin_marked ?c1" "sent_segments (user_data b') = sent_segments (user_data ?c1) @
           (if last_sent (tx_buf ?c1) = Some (tx_next (tx_buf ?c1), ackd (rx_buf ?c1), curr_window (rx_buf ?c1))
            then [] else [(remote ?c1, ack_segment ?c1)])"
    by (rule send_ack_nothing [of ?c1 E]) (use idle in \<open>simp_all add: ack_fin_def\<close>)
  have "0 < ?n" "?n < 2 ^ 32" using seg by (simp_all add: in_order_def MAX_SEGMENT_SIZE_def)
  then have "unat (as_u32 ?n) \<noteq> 0" by (simp add: unat_of_nat_u32 del: unat_eq_zero)
  then have "as_u32 ?n \<noteq> 0" by auto
  then have new: "ackd rx \<noteq> ackd (rx_buf b)" using D(2) size by simp
  have S: "on_segment E seg b = Some b'"
    using on_segment_open [OF idle(1) seg(1) idle(6,7,9), of E] seg(1,2) W A(1)
    by (simp add: store_segment_def in_order_def)
  have last: "sent_since (user_data b) (user_data b') = Some (ack_segment ?c1)"
    using A(10) b(2) new by (intro sent_since_snoc) simp
  show thesis
    by (rule that [OF S]) (use A(2-9) D(1-5) idle size fl last in \<open>simp_all add: ack_segment_def ack_fin_def\<close>)
qed

lemma server_reads:
  assumes "connection_state b = FULLY_OPEN" and "rx_stream (rx_buf b) = bytes" and "bytes \<noteq> []"
    and "\<not> rx_fin (rx_buf b)" and "\<not> rx_done (rx_buf b)"
  obtains rx where "call_recv E (replicate (length bytes) 0) b = Some (Ok (length bytes), bytes, b\<lparr>rx_buf := rx\<rparr>)"
    and "rx_stream rx = []" and "\<not> rx_fin rx" and "\<not> rx_done rx" and "ackd rx = ackd (rx_buf b)"
    and "rx_window rx = rx_window (rx_buf b)"
proof -
  have "rx_read_bytes (length bytes) (rx_buf b) \<noteq> None"
    using assms by (simp add: rx_read_bytes_eq_None)
  then obtain bs rx where R: "rx_read_bytes (length bytes) (rx_buf b) = Some (bs, rx)" by auto
  note D = rx_read_bytesD [OF R]
  have "call_recv E (replicate (length bytes) 0) b = Some (Ok (length bytes), bytes, b\<lparr>rx_buf := rx\<rparr>)"
    using assms R D by (simp add: call_recv_def FULLY_OPEN_def rx_available_stream rust_assert_def)
  then show thesis by (rule that) (use D assms in simp_all)
qed

text \<open>The client sends a chunk that the window has room for.\<close>

lemma client_sends:
  assumes a: "open_idle a" "may_send a" and n: "bytes \<noteq> []" "length bytes \<le> MAX_SEGMENT_SIZE"
  obtains a' where "call_send E bytes a = Some (Ok (), a')" and "connection_state a' = FULLY_OPEN"
    and "tx_stream a' = []" and "\<not> tx_fin_marked a'" and "rx_buf a' = rx_buf a"
    and "timings a' = timings a" and "exp_backoff a' = 1" and "congestion_window a' = INITIAL_WINDOW_SIZE"
    and "dup_ack_count a' = 0" and "options a' = options a" and "unack (tx_buf a') = tx_next (tx_buf a)"
    and "tx_next (tx_buf a') = tx_next (tx_buf a) + as_u32 (length bytes)"
    and "re_tx (tx_buf a') = [\<lparr>seqn = tx_next (tx_buf a), ackn = ackd (rx_buf a),
           window = curr_window (rx_buf a), flags = ACK, data = bytes\<rparr>]"
    and "sent_since (user_data a) (user_data a') = Some \<lparr>seqn = tx_next (tx_buf a), ackn = ackd (rx_buf a),
           window = curr_window (rx_buf a), flags = ACK, data = bytes\<rparr>"
    and "timer_re_tx (timers a') \<noteq> None" and "timer_timewait (timers a') = None"
    and "timer_usertime (timers a') = None"
    and "\<exists>s. last_sent (tx_buf a') = Some (tx_next (tx_buf a), s)"
proof -
  have idle: "connection_state a = FULLY_OPEN" "tx_stream a = []" "\<not> tx_fin_marked a" "re_tx (tx_buf a) = []"
    "unack (tx_buf a) = tx_next (tx_buf a)"
    and may: "dup_ack_count a = 0" "congestion_window a = INITIAL_WINDOW_SIZE"
    "3584 \<le> unat (tx_window (tx_buf a))" "nagle_delay (options a) = 0" "exp_backoff a = 1"
    "timer_timewait (timers a) = None" "timer_usertime (timers a) = None"
    using a by (simp_all add: open_idle_def may_send_def)
  have "write_tx bytes a \<noteq> None"
    using idle(3) by (simp add: write_tx_def bind_eq_None_conv queue_write_bytes_eq_None)
  then obtain a1 where W: "write_tx bytes a = Some a1" by auto
  then obtain q where a1: "a1 = a\<lparr>tx_buf := (tx_buf a)\<lparr>tx_queue := q\<rparr>\<rparr>"
    and q: "contents q = bytes" "\<not> fin q"
    by (rule write_tx_frame) (use idle(2,3) in auto)
  have st: "connection_state a1 = FULLY_OPEN" using idle(1) by (simp add: a1)
  have room: "unat (space_available (tx_buf a1)) = unat (tx_window (tx_buf a))"
    using space_available_unat [of "tx_buf a1"] idle(5) by (simp add: a1)
  then have limit: "ack_limit a1 = MAX_SEGMENT_SIZE"
    using may(3) by (simp add: ack_limit_def MAX_SEGMENT_SIZE_def)
  have nofin: "\<not> ack_fin a1" using q by (simp add: ack_fin_def a1)
  have seg: "ack_segment a1 = \<lparr>seqn = tx_next (tx_buf a), ackn = ackd (rx_buf a),
      window = curr_window (rx_buf a), flags = ACK, data = bytes\<rparr>" (is "_ = ?seg")
    using n(2) q by (simp add: ack_segment_def limit nofin) (simp add: a1)
  have len: "seg_len ?seg = length bytes" by (simp add: seg_len_def flag_simps)
  then have dup: "\<not> ack_duplicate a1" using not_duplicate [of a1] n(1) by (simp add: seg)
  obtain a' r where A: "send_ack E a1 = Some a'" "evolves E a1 a'" "connection_state a' = FULLY_OPEN"
    "rx_buf a' = rx_buf a1" "timings a' = timings a1" "exp_backoff a' = exp_backoff a1"
    "congestion_window a' = congestion_window a1" "dup_ack_count a' = dup_ack_count a1"
    "contents r = []" "\<not> fin r" "tx_buf a' = (on_send ?seg (tx_buf a1))\<lparr>tx_queue := r\<rparr>"
    "sent_segments (user_data a') = sent_segments (user_data a1) @ [(remote a1, ?seg)]"
    "timer_timewait (timers a') = timer_timewait (timers a1)"
    "timer_usertime (timers a') = timer_usertime (timers a1)" "timer_re_tx (timers a') \<noteq> None"
    by (rule send_ack_spec [of a1 E]) (use st nofin seg dup len n q a1 limit in auto)
  have size: "seq_size ?seg = as_u32 (length bytes)" "as_u32 (length bytes) \<noteq> 0"
    using len n seq_size_eq_0 [of ?seg] by (simp_all add: seq_size_of_nat MAX_SEGMENT_SIZE_def)
  have tx: "tx_buf a' = (tx_buf a)\<lparr>tx_queue := r, re_tx := [?seg],
      tx_next := tx_next (tx_buf a) + as_u32 (length bytes),
      last_sent := Some (tx_next (tx_buf a), ackd (rx_buf a), curr_window (rx_buf a))\<rparr>"
    using idle(4) by (simp add: A(11) on_send_def size wrapping_add_def a1)
  have "unack_has_space (tx_buf a1)"
    using unack_has_space_iff [of "tx_buf a1"] idle(5) by (simp add: a1)
  moreover have "0 < queue_available_bytes q" using q n(1) by (simp add: available_bytes_contents)
  ultimately have S: "call_send E bytes a = Some (Ok (), a')"
    using n(1) W A(1) idle(1) may(4) by (simp add: call_send_def FULLY_OPEN_def panic_simps a1)
  have "sent_since (user_data a) (user_data a') = Some ?seg"
    using A(12) by (intro sent_since_snoc) (simp add: a1)
  then show thesis
    by (intro that [OF S]) (use A(2-10,13-15) tx idle may in \<open>simp_all add: a1 evolves_def\<close>)
qed

text \<open>
  Each expiry of the timer sends the segment in flight again, and only backs the timer off.
\<close>

definition in_flight :: "('a, 't) Connection \<Rightarrow> SegmentMeta \<Rightarrow> bool" where
  "in_flight a seg \<longleftrightarrow> re_tx (tx_buf a) = [seg] \<and> connection_state a = FULLY_OPEN \<and>
     timings a = Timings_default \<and> timer_re_tx (timers a) \<noteq> None \<and>
     timer_timewait (timers a) = None \<and> timer_usertime (timers a) = None"

lemma lose_resends:
  assumes "in_flight a seg" and "unat (exp_backoff a) * 2 ^ k < 2 ^ 63"
  shows "\<exists>a'. lose E k (seg, a) = Some (seg, a') \<and> in_flight a' seg \<and> rx_buf a' = rx_buf a \<and> tx_buf a' = tx_buf a \<and>
    dup_ack_count a' = dup_ack_count a \<and> congestion_window a' = congestion_window a \<and>
    options a' = options a"
  using assms
proof (induction k arbitrary: a)
  case 0
  then show ?case by simp
next
  case (Suc k)
  let ?b = "exp_backoff a * 2"
  obtain deadline where t: "timer_re_tx (timers a) = Some deadline"
    using Suc.prems(1) by (auto simp: in_flight_def)
  have "unat (exp_backoff a) * 2 \<le> unat (exp_backoff a) * 2 ^ Suc k" by simp
  with Suc.prems(2) have lt: "unat (exp_backoff a) * 2 < 2 ^ 63" by linarith
  then have m: "ovf_mul (debug_assertions E) (exp_backoff a) 2 = Some ?b" by (simp add: ovf_mul_def)
  have ub: "unat ?b = unat (exp_backoff a) * 2" using lt by (simp add: unat_word_ariths)
  with lt have "duration_add (rto Timings_default) (from_secs (unat ?b)) \<noteq> None"
    by (simp add: duration_add_def Timings_default_def)
  then obtain d where d: "duration_add (rto Timings_default) (from_secs (unat ?b)) = Some d" by auto
  let ?a = "set_timer_re_tx E d (user_send seg (a\<lparr>timers := (timers a)\<lparr>timer_re_tx := None\<rparr>, exp_backoff := ?b\<rparr>))"
  have tick: "on_time_tick E deadline a = Some ?a"
    using Suc.prems(1) t m d
    by (simp add: on_time_tick_def on_timer_re_tx_def expired_def in_flight_def FULLY_OPEN_def Let_def)
  have again: "sent_since (user_data a) (user_data ?a) = Some seg"
    by (rule sent_since_snoc [of _ _ "remote a"]) (simp add: history_simps)
  have "in_flight ?a seg" using Suc.prems(1) by (simp add: in_flight_def)
  moreover have "unat (exp_backoff ?a) * 2 ^ k < 2 ^ 63" using Suc.prems(2) ub by simp
  ultimately obtain a' where "lose E k (seg, ?a) = Some (seg, a')" "in_flight a' seg" "rx_buf a' = rx_buf ?a"
    "tx_buf a' = tx_buf ?a" "dup_ack_count a' = dup_ack_count ?a"
    "congestion_window a' = congestion_window ?a" "options a' = options ?a"
    using Suc.IH by blast
  then show ?case using t tick again by simp
qed

lemma lose_evolves: "lose E k (seg, a) = Some (seg', a') \<Longrightarrow> evolves E a a'"
  by (induction k arbitrary: seg a)
    (auto simp: bind_eq_Some_conv intro: evolves_trans evolves_on_time_tick)

text \<open>The client takes the acknowledgement of the one segment in flight.\<close>

lemma client_takes_ack:
  assumes f: "in_flight a flying" and seg: "in_order seg a" "ackn seg = tx_next (tx_buf a)" "data seg = []"
    and fl: "seqn_after flying = tx_next (tx_buf a)" and new: "unack (tx_buf a) \<noteq> tx_next (tx_buf a)"
    and tx: "tx_stream a = []" "\<not> tx_fin_marked a" "nagle_delay (options a) = 0"
    and cw: "dup_ack_count a = 0" "congestion_window a = INITIAL_WINDOW_SIZE" "3584 \<le> unat (window seg)"
    and rx: "rx_stream (rx_buf a) = []" "\<not> rx_fin (rx_buf a)" "\<not> rx_done (rx_buf a)"
      "rx_window (rx_buf a) = INITIAL_WINDOW_SIZE"
  obtains a' where "on_segment E seg a = Some a'" and "open_idle a'" and "may_send a'"
    and "tx_next (tx_buf a') = tx_next (tx_buf a)" and "ackd (rx_buf a') = ackd (rx_buf a)"
proof -
  have st: "connection_state a = FULLY_OPEN" using f by (simp add: in_flight_def)
  let ?c0 = "a\<lparr>tx_buf := (tx_buf a)\<lparr>tx_window := min (window seg) (congestion_window a)\<rparr>\<rparr>"
  obtain c1 where N: "on_new_ack E seg ?c0 = Some c1" "connection_state c1 = connection_state ?c0"
    "rx_buf c1 = rx_buf ?c0" "tx_buf c1 = (tx_buf ?c0)\<lparr>re_tx := [], unack := ackn seg,
           tx_window := min (window seg) INITIAL_WINDOW_SIZE\<rparr>"
    "dup_ack_count c1 = 0" "congestion_window c1 = INITIAL_WINDOW_SIZE" "timings c1 = timings ?c0"
    "options c1 = options ?c0" "exp_backoff c1 = 1" "timers c1 = (timers ?c0)\<lparr>timer_re_tx := None\<rparr>"
    by (rule on_new_ack_all [of ?c0 flying seg E]) (use f fl seg cw in \<open>simp_all add: in_flight_def\<close>)
  have size: "seq_size seg = 0" and fin: "\<not> flags_contains (flags seg) FIN"
    using seg by (simp_all add: in_order_def seq_size_of_nat seg_len_def flag_simps)
  have W: "rx_write (debug_assertions E) seg (rx_buf a) = Some (rx_buf a)"
    using size fin seg(3) by (cases "rx_buf a") (simp add: rx_write_cases)
  obtain a' q where A: "send_ack E c1 = Some a'" "connection_state a' = connection_state c1" "rx_buf a' = rx_buf c1"
    "timings a' = timings c1" "exp_backoff a' = exp_backoff c1" "congestion_window a' = congestion_window c1"
    "dup_ack_count a' = dup_ack_count c1" "timers a' = timers c1" "options a' = options c1"
    "tx_buf a' = (tx_buf c1)\<lparr>tx_queue := q, last_sent :=
           Some (tx_next (tx_buf c1), ackd (rx_buf c1), curr_window (rx_buf c1))\<rparr>"
    "contents q = []" "fin q = tx_fin_marked c1"
    by (rule send_ack_nothing [of c1 E]) (use N st tx in \<open>simp_all add: ack_fin_def\<close>)
  have "send_ack E (c1\<lparr>rx_buf := rx_buf a\<rparr>) = Some a'" using A(1) N(3) by (cases c1) simp
  then have S: "on_segment E seg a = Some a'"
    using on_segment_open [OF st seg(1) rx(1,2,4), of E] seg(1,2) new N(1,3) W
    by (simp add: store_segment_def in_order_def)
  have "3584 \<le> unat (min (window seg) INITIAL_WINDOW_SIZE)"
    using cw(3) by (simp add: min_def INITIAL_WINDOW_SIZE_def)
  with f A(2-12) N(2-10) tx rx seg(2) S show thesis
    by (intro that [OF S]) (simp_all add: open_idle_def may_send_def in_flight_def)
qed

section \<open>A chunk, from the sender's queue to the reader's buffer\<close>

lemma server_takes_chunk:
  assumes b: "open_idle b" "last_sent (tx_buf b) = Some (s, ackd (rx_buf b), w)"
    and seg: "in_order seg b" "ackn seg = unack (tx_buf b)" "data seg \<noteq> []"
  obtains b1 b2 v where "on_segment E seg b = Some b1"
    and "call_recv E (replicate (length (data seg)) 0) b1 = Some (Ok (length (data seg)), data seg, b2)"
    and "sent_since (user_data b) (user_data b1) = Some \<lparr>seqn = tx_next (tx_buf b), ackn = ackd (rx_buf b2),
           window = v, flags = ACK, data = []\<rparr>"
    and "3584 \<le> unat v" and "open_idle b2" and "tx_next (tx_buf b2) = tx_next (tx_buf b)"
    and "ackd (rx_buf b2) = ackd (rx_buf b) + as_u32 (length (data seg))"
    and "\<exists>s w. last_sent (tx_buf b2) = Some (s, ackd (rx_buf b2), w)"
    and "dup_ack_count b2 = dup_ack_count b" and "congestion_window b2 = congestion_window b"
    and "evolves E b b2"
proof -
  obtain b1 where B: "on_segment E seg b = Some b1" and b1: "connection_state b1 = FULLY_OPEN"
    "tx_stream b1 = []" "\<not> tx_fin_marked b1" "re_tx (tx_buf b1) = []"
    "unack (tx_buf b1) = tx_next (tx_buf b1)" "tx_next (tx_buf b1) = tx_next (tx_buf b)"
    "rx_stream (rx_buf b1) = data seg" "\<not> rx_fin (rx_buf b1)" "\<not> rx_done (rx_buf b1)"
    "rx_window (rx_buf b1) = INITIAL_WINDOW_SIZE" "timings b1 = timings b"
    "dup_ack_count b1 = dup_ack_count b" "congestion_window b1 = congestion_window b"
    "ackd (rx_buf b1) = ackd (rx_buf b) + as_u32 (length (data seg))"
    "last_sent (tx_buf b1) = Some (tx_next (tx_buf b), ackd (rx_buf b1), curr_window (rx_buf b1))"
    and ack: "sent_since (user_data b) (user_data b1) = Some \<lparr>seqn = tx_next (tx_buf b),
      ackn = ackd (rx_buf b1), window = curr_window (rx_buf b1), flags = ACK, data = []\<rparr>"
    by (rule server_stores [OF b seg])
  obtain rx where R: "call_recv E (replicate (length (data seg)) 0) b1
      = Some (Ok (length (data seg)), data seg, b1\<lparr>rx_buf := rx\<rparr>)"
    and rx: "rx_stream rx = []" "\<not> rx_fin rx" "\<not> rx_done rx" "ackd rx = ackd (rx_buf b1)"
      "rx_window rx = rx_window (rx_buf b1)"
    by (rule server_reads [OF b1(1,7) seg(3) b1(8,9)])
  have "length (data seg) \<le> 512" using seg(1) by (simp add: in_order_def MAX_SEGMENT_SIZE_def)
  then have "3584 \<le> unat (curr_window (rx_buf b1))"
    using b1(7,8,10) by (simp add: unat_curr_window INITIAL_WINDOW_SIZE_def)
  moreover have "open_idle (b1\<lparr>rx_buf := rx\<rparr>)" using b(1) b1(1-6,10,11) rx by (simp add: open_idle_def)
  moreover have "evolves E b (b1\<lparr>rx_buf := rx\<rparr>)"
    by (rule evolves_trans [OF evolves_on_segment [OF B]]) (use accounted_call_recv [OF R] in simp)
  ultimately show thesis using ack rx b1(6,12-15) by (intro that [OF B R]) simp_all
qed

lemma chunk_arrives:
  assumes L: "linked a b" and n: "bytes \<noteq> []" "length bytes \<le> MAX_SEGMENT_SIZE" and k: "k < 63"
  obtains a' b' where "send_chunk Ea Eb (bytes, k) (a, b) = Some (bytes, a', b')" and "linked a' b'"
    and "tx_next (tx_buf a') = tx_next (tx_buf a) + as_u32 (length bytes)"
    and "evolves Ea a a'" and "evolves Eb b b'"
proof -
  have a: "open_idle a" "may_send a" and b: "open_idle b"
    and sync: "ackd (rx_buf b) = tx_next (tx_buf a)" "ackd (rx_buf a) = tx_next (tx_buf b)"
    using L by (simp_all add: linked_def)
  obtain s w where sent: "last_sent (tx_buf b) = Some (s, ackd (rx_buf b), w)"
    using L by (auto simp: linked_def)
  let ?n = "as_u32 (length bytes)"
  let ?seg = "\<lparr>seqn = tx_next (tx_buf a), ackn = ackd (rx_buf a), window = curr_window (rx_buf a),
    flags = ACK, data = bytes\<rparr>"
  obtain a1 where S: "call_send Ea bytes a = Some (Ok (), a1)" and a1: "connection_state a1 = FULLY_OPEN"
    "tx_stream a1 = []" "\<not> tx_fin_marked a1" "rx_buf a1 = rx_buf a" "timings a1 = timings a"
    "exp_backoff a1 = 1" "congestion_window a1 = INITIAL_WINDOW_SIZE" "dup_ack_count a1 = 0"
    "options a1 = options a" "unack (tx_buf a1) = tx_next (tx_buf a)"
    "tx_next (tx_buf a1) = tx_next (tx_buf a) + ?n" "re_tx (tx_buf a1) = [?seg]"
    "sent_since (user_data a) (user_data a1) = Some ?seg" "timer_re_tx (timers a1) \<noteq> None" "timer_timewait (timers a1) = None"
    "timer_usertime (timers a1) = None"
    by (rule client_sends [OF a n])
  have "in_flight a1 ?seg" using a a1 by (simp add: in_flight_def open_idle_def)
  moreover have "(2::nat) ^ k < 2 ^ 63" using k by (intro power_strict_increasing) simp_all
  then have "unat (exp_backoff a1) * 2 ^ k < 2 ^ 63" by (simp add: a1)
  ultimately obtain a2 where lost: "lose Ea k (?seg, a1) = Some (?seg, a2)" and f: "in_flight a2 ?seg"
    and a2: "rx_buf a2 = rx_buf a" "tx_buf a2 = tx_buf a1" "dup_ack_count a2 = 0"
      "congestion_window a2 = INITIAL_WINDOW_SIZE" "options a2 = options a"
    using lose_resends [of a1 ?seg k Ea] a1 by auto
  have seg: "in_order ?seg b" "ackn ?seg = unack (tx_buf b)" "data ?seg \<noteq> []"
    using sync b n by (simp_all add: in_order_def open_idle_def)
  obtain b1 b2 v where B: "on_segment Eb ?seg b = Some b1"
    "call_recv Eb (replicate (length (data ?seg)) 0) b1 = Some (Ok (length (data ?seg)), data ?seg, b2)"
    and ack: "sent_since (user_data b) (user_data b1) = Some \<lparr>seqn = tx_next (tx_buf b),
      ackn = ackd (rx_buf b2), window = v, flags = ACK, data = []\<rparr>" (is "_ = Some ?ack")
    and b2: "3584 \<le> unat v" "open_idle b2" "tx_next (tx_buf b2) = tx_next (tx_buf b)"
    "ackd (rx_buf b2) = ackd (rx_buf b) + as_u32 (length (data ?seg))"
    "\<exists>s w. last_sent (tx_buf b2) = Some (s, ackd (rx_buf b2), w)" "dup_ack_count b2 = dup_ack_count b"
    "congestion_window b2 = congestion_window b" "evolves Eb b b2"
    by (rule server_takes_chunk [OF b sent seg])
  have acked: "ackd (rx_buf b2) = tx_next (tx_buf a2)" using b2(4) sync(1) a1(11) by (simp add: a2)
  have size: "?n \<noteq> 0" "seqn_after ?seg = tx_next (tx_buf a) + ?n"
    using seq_size_eq_0 [of ?seg] n
    by (simp_all add: seqn_after_def seq_size_of_nat seg_len_def flag_simps wrapping_add_def MAX_SEGMENT_SIZE_def)
  obtain a' where A: "on_segment Ea ?ack a2 = Some a'" "open_idle a'" "may_send a'"
    "tx_next (tx_buf a') = tx_next (tx_buf a2)" "ackd (rx_buf a') = ackd (rx_buf a2)"
    by (rule client_takes_ack [OF f, of ?ack Ea])
      (use a a1 a2 b2(1) size acked sync(2) in
        \<open>simp_all add: in_order_def open_idle_def may_send_def\<close>)
  have "evolves Ea a a'"
    by (rule evolves_trans [OF _ evolves_on_segment [OF A(1)]], rule evolves_trans [OF _ lose_evolves [OF lost]])
      (use accounted_call_send [OF S] in simp)
  moreover have "send_chunk Ea Eb (bytes, k) (a, b) = Some (bytes, a', b2)"
    using a1(13) B by (simp add: send_chunk_def S lost ack A(1))
  moreover have "linked a' b2"
    using A(2-5) L b2(2,3,5-7) acked sync(2) a2(1) by (simp add: linked_def)
  ultimately show thesis using A(4) a1(11) a2(2) b2(8) that by simp
qed

lemma chunks_arrive:
  assumes "linked a b"
    and "\<forall>(bytes, k) \<in> set chunks. bytes \<noteq> [] \<and> length bytes \<le> MAX_SEGMENT_SIZE \<and> k < 63"
  shows "\<exists>a' b'. send_chunks Ea Eb chunks (a, b) = Some (concat (map fst chunks), a', b') \<and> linked a' b' \<and>
    tx_next (tx_buf a') = tx_next (tx_buf a) + as_u32 (length (concat (map fst chunks))) \<and>
    evolves Ea a a' \<and> evolves Eb b b'"
  using assms
proof (induction chunks arbitrary: a b)
  case (Cons chunk chunks)
  obtain bytes k where c: "chunk = (bytes, k)" by fastforce
  with Cons.prems have "bytes \<noteq> []" "length bytes \<le> MAX_SEGMENT_SIZE" "k < 63" by auto
  then obtain a1 b1 where C: "send_chunk Ea Eb (bytes, k) (a, b) = Some (bytes, a1, b1)" "linked a1 b1"
    "tx_next (tx_buf a1) = tx_next (tx_buf a) + as_u32 (length bytes)" "evolves Ea a a1" "evolves Eb b b1"
    by (rule chunk_arrives [OF Cons.prems(1)])
  from Cons.IH [OF C(2)] Cons.prems(2) obtain a' b' where
    "send_chunks Ea Eb chunks (a1, b1) = Some (concat (map fst chunks), a', b')" "linked a' b'"
    "tx_next (tx_buf a') = tx_next (tx_buf a1) + as_u32 (length (concat (map fst chunks)))"
    "evolves Ea a1 a'" "evolves Eb b1 b'"
    by auto
  with C show ?case by (auto simp: c add.assoc intro: evolves_trans)
qed simp

end
