(* ===== verification/Tcp_CallSafety.thy ===== *)
theory Tcp_CallSafety
  imports Tcp_Run
begin

text \<open>
  The user's calls: which results a call may return in which state, and exactly when a call
  panics.
\<close>

section \<open>Results\<close>

text \<open>
  \<open>result_type x s r\<close>: a call \<open>x\<close> in state \<open>s\<close> may return \<open>r\<close>. Segments and ticks return
  nothing (\<open>Ok 0\<close> here).
\<close>

fun result_type :: "'t conn_op \<Rightarrow> ConnectionState \<Rightarrow> Error + nat \<Rightarrow> bool" where
  "result_type DoConnect s r =
     (if s = ConnectionState.Closed \<or> s = Reset then \<exists>k. r = Err (ContinueAfter k)
      else r = Err InvalidStateTransition)"
| "result_type (DoSend bytes) s r =
     (case s of Reset \<Rightarrow> r = Err ConnectionReset | ConnectionState.Closed \<Rightarrow> r = Err NotConnected
      | ConnectionState.Listen \<Rightarrow> r = Err NotConnected | TimeWait \<Rightarrow> r = Err ConnectionClosing
      | ConnectionState.Established _ _ _ _ \<Rightarrow> r = Ok 0 | _ \<Rightarrow> \<exists>k. r = Err (ContinueAfter k))"
| "result_type (DoRecv buf) s r =
     (case s of Reset \<Rightarrow> r = Err ConnectionReset | ConnectionState.Closed \<Rightarrow> r = Err NotConnected
      | TimeWait \<Rightarrow> r = Err ConnectionClosing
      | ConnectionState.Established _ rx _ _ \<Rightarrow>
          (case rx of Open \<Rightarrow> r = Ok (length buf) \<or> (\<exists>k. r = Err (RetryAfter k))
           | Fin \<Rightarrow> \<exists>n \<le> length buf. r = Ok n
           | ChannelState.Closed \<Rightarrow> r = Ok 0)
      | _ \<Rightarrow> \<exists>k. r = Err (RetryAfter k))"
| "result_type DoShutdown s r =
     (case s of Reset \<Rightarrow> r = Err ConnectionReset | ConnectionState.Closed \<Rightarrow> r = Err NotConnected
      | TimeWait \<Rightarrow> r = Err ConnectionClosing
      | SynReceived \<Rightarrow> r = Ok 0 \<or> (\<exists>k. r = Err (RetryAfter k))
      | ConnectionState.Established tx _ _ _ \<Rightarrow>
          if tx = Open then r = Ok 0 \<or> (\<exists>k. r = Err (RetryAfter k)) else r = Err ConnectionClosing
      | _ \<Rightarrow> r = Ok 0)"
| "result_type DoClose s r =
     (case s of Reset \<Rightarrow> r = Err ConnectionReset | ConnectionState.Closed \<Rightarrow> r = Err NotConnected
      | TimeWait \<Rightarrow> r = Err ConnectionClosing
      | SynReceived \<Rightarrow> \<exists>k. r = Err (RetryAfter k) \<or> r = Err (ContinueAfter k)
      | ConnectionState.Established tx rx _ _ \<Rightarrow>
          if tx = Open then \<exists>k. r = Err (RetryAfter k) \<or> r = Err (ContinueAfter k)
          else if tx = ChannelState.Closed \<and> rx = ChannelState.Closed then r = Ok 0
          else \<exists>k. r = Err (ContinueAfter k)
      | _ \<Rightarrow> r = Ok 0)"
| "result_type DoAbort s r =
     (case s of Reset \<Rightarrow> r = Err ConnectionReset | ConnectionState.Closed \<Rightarrow> r = Err NotConnected
      | _ \<Rightarrow> r = Ok 0)"
| "result_type (Segment seg) s r = (r = Ok 0)"
| "result_type (Tick t) s r = (r = Ok 0)"

lemma suspend_results:
  "retry_after E w c = Some (r, c') \<Longrightarrow> \<exists>k. r = Err (RetryAfter k)"
  "continue_after E w c = Some (r, c') \<Longrightarrow> \<exists>k. r = Err (ContinueAfter k)"
  by (auto simp: retry_after_def return_retry_after_def continue_after_def return_continue_after_def
      bind_eq_Some_conv)

lemma no_value_simps [simp]: "no_value (Err e) = Err e" "no_value (Ok ()) = Ok 0"
  by (simp_all add: no_value_def)

lemma type_connect: "call_connect E c = Some (r, c') \<Longrightarrow> result_type DoConnect (connection_state c) (no_value r)"
  by (auto simp: call_connect_def Let_def bind_eq_Some_conv case_prod_beta split: if_splits
      dest!: suspend_results)

lemma type_send: "call_send E bytes c = Some (r, c') \<Longrightarrow>
    result_type (DoSend bytes) (connection_state c) (no_value r)"
  by (auto simp: call_send_def Let_def bind_eq_Some_conv split: ConnectionState.splits
      dest!: suspend_results)

lemma type_recv: "call_recv E buf c = Some (r, out, c') \<Longrightarrow> result_type (DoRecv buf) (connection_state c) r"
  by (auto simp: call_recv_def Let_def bind_eq_Some_conv panic_simps
      split: ConnectionState.splits ChannelState.splits if_splits dest!: suspend_results)

lemma type_shutdown: "call_shutdown E c = Some (r, c') \<Longrightarrow>
    result_type DoShutdown (connection_state c) (no_value r)"
  by (auto simp: call_shutdown_def bind_eq_Some_conv
      split: ConnectionState.splits ChannelState.splits if_splits dest!: suspend_results)

lemma type_abort: "call_abort E c = (r, c') \<Longrightarrow> result_type DoAbort (connection_state c) (no_value r)"
  by (auto simp: call_abort_def Let_def split: ConnectionState.splits)

lemma type_close_established: "close_established E ca c = Some (r, c') \<Longrightarrow>
    connection_state c = ConnectionState.Established t rx cc ca' \<Longrightarrow>
    (if t = ChannelState.Closed \<and> rx = ChannelState.Closed then r = Ok () else \<exists>k. r = Err (ContinueAfter k))"
  by (cases t; cases rx) (auto simp: close_established_def Let_def bind_eq_Some_conv dest!: suspend_results)

lemma type_close:
  assumes H: "call_close E c = Some (r, c')" and ok: "conn_wf c"
  shows "result_type DoClose (connection_state c) (no_value r)"
proof (cases "connection_state c")
  case (Established t rx cc ca)
  consider (suspend) "retry_after E TxQueueEmpty c = Some (r, c')" "t = Open"
    | (fin) c1 ca' where "mark_fin_and_send E c = Some c1" "close_established E ca' c1 = Some (r, c')"
        "t = Open"
    | (closed) ca' where "close_established E ca' c = Some (r, c')" "t \<noteq> Open"
    using H Established by (auto simp: call_close_def Let_def bind_eq_Some_conv split: if_splits)
  then show ?thesis
  proof cases
    case (fin c1 ca')
    have "can_ack c" using ok Established by (auto intro: conn_ok_can_ack)
    then have "\<exists>t'. t' \<noteq> ChannelState.Closed \<and>
        connection_state c1 = ConnectionState.Established t' rx cc ca"
      using fin(1,3) Established by (elim mark_fin_and_send_spec [of c E]) auto
    with type_close_established [OF fin(2)] fin(3) Established show ?thesis by auto
  next
    case (closed ca')
    with type_close_established [OF closed(1) Established] Established show ?thesis by auto
  qed (use Established in \<open>auto dest!: suspend_results\<close>)
qed (use H in \<open>auto simp: call_close_def Let_def bind_eq_Some_conv split: if_splits
      dest!: suspend_results\<close>)

lemma conn_step_type:
  assumes H: "conn_step E x c = Some (r, c')" and ok: "conn_wf c"
  shows "result_type x (connection_state c) r"
proof (cases x)
  case DoConnect
  with H show ?thesis by (auto simp del: result_type.simps intro: type_connect)
next
  case (DoSend bytes)
  with H show ?thesis by (auto simp del: result_type.simps intro: type_send)
next
  case (DoRecv buf)
  with H show ?thesis by (auto simp del: result_type.simps intro: type_recv)
next
  case DoShutdown
  with H show ?thesis by (auto simp del: result_type.simps intro: type_shutdown)
next
  case DoClose
  with H ok show ?thesis by (auto simp del: result_type.simps intro: type_close)
next
  case DoAbort
  with H show ?thesis
    by (cases "call_abort E c") (auto simp del: result_type.simps intro: type_abort)
qed (use H in auto)

section \<open>Panics\<close>

text \<open>The calls of the user, as opposed to what the network and the clock do.\<close>

fun is_call :: "'t conn_op \<Rightarrow> bool" where
  "is_call (Segment seg) = False"
| "is_call (Tick t) = False"
| "is_call x = True"

text \<open>No data waits to be sent or acknowledged: what shutdown and close wait for.\<close>

definition idle :: "('a, 't) Connection \<Rightarrow> bool" where
  "idle c \<longleftrightarrow> tx_stream c = [] \<and> \<not> any_suspended is_Acknowledged (events c)"

text \<open>
  When a call panics: an empty buffer, a send on a stream marked with its end, a read that
  finds the state ahead of the buffer, and, in a debug build, a state change on a connection
  on which close was called although the FIN could not be sent.
\<close>

fun call_panics :: "('a, 't) env \<Rightarrow> 't conn_op \<Rightarrow> ('a, 't) Connection \<Rightarrow> bool" where
  "call_panics E (DoSend bytes) c \<longleftrightarrow> bytes = [] \<or>
     (\<exists>t r cc ca. connection_state c = ConnectionState.Established t r cc ca) \<and> tx_fin_marked c"
| "call_panics E (DoRecv buf) c \<longleftrightarrow>
     (\<exists>t r cc ca. connection_state c = ConnectionState.Established t r cc ca \<and>
        (r \<noteq> ChannelState.Closed \<and> buf = [] \<or>
         r = Fin \<and> length (rx_stream (rx_buf c)) < length buf \<and>
           (\<not> rx_fin (rx_buf c) \<or> debug_assertions E \<and> cc \<and> t = Open)))"
| "call_panics E DoShutdown c \<longleftrightarrow> debug_assertions E \<and> idle c \<and>
     (\<exists>ca. connection_state c = ConnectionState.Established Open Open True ca)"
| "call_panics E DoClose c \<longleftrightarrow> debug_assertions E \<and> idle c \<and> ack_limit c = 0 \<and>
     (\<exists>r ca. connection_state c = ConnectionState.Established Open r True ca)"
| "call_panics E _ c \<longleftrightarrow> False"

definition cookies_left :: "('a, 't) Connection \<Rightarrow> bool" where
  "cookies_left c \<longleftrightarrow> unat (next_cookie (events c)) + 1 < 2 ^ 64"

lemma suspend_defined [simp]:
  assumes "cookies_left c"
  shows "retry_after E w c \<noteq> None" "continue_after E w c \<noteq> None"
  using assms
  by (auto simp: cookies_left_def retry_after_def return_retry_after_def continue_after_def
      return_continue_after_def new_cookie_def cookie_next_def ovf_add_def Let_def)

lemma evolves_cookies_left: "evolves E c c1 \<Longrightarrow> cookies_left c \<Longrightarrow> cookies_left c1"
  by (simp add: evolves_def cookies_left_def)

lemma panic_connect:
  assumes "cookies_left c"
  shows "call_connect E c \<noteq> None"
proof (cases "connection_state c = ConnectionState.Closed \<or> connection_state c = Reset")
  case True
  then have S: "set_state E SynSent c = Some (enter_state E SynSent c)"
    by (auto simp: set_state_not_closing)
  obtain v c1 where v: "user_new_seqn E (enter_state E SynSent c) = (v, c1)" by fastforce
  have "evolves E c (snd (user_new_seqn E (enter_state E SynSent c)))"
    by (intro evolves_intros evolves_set_state [OF S]) simp_all
  then have c1: "evolves E c c1" by (simp add: v)
  show ?thesis
    unfolding call_connect_def Let_def using True
    by (simp add: S v del: not_None_eq)
      (intro suspend_defined(2) evolves_cookies_left [OF _ assms, of E] evolves_intros c1)
qed (simp add: call_connect_def)

lemma write_tx_None: "write_tx bytes c = None \<longleftrightarrow> bytes \<noteq> [] \<and> tx_fin_marked c"
  by (auto simp: write_tx_def bind_eq_None_conv queue_write_bytes_eq_None)

lemma panic_send:
  assumes ok: "conn_wf c" and k: "cookies_left c"
  shows "call_send E bytes c = None \<longleftrightarrow> call_panics E (DoSend bytes) c"
proof (cases "bytes = [] \<or> tx_fin_marked c")
  case True
  with ok write_tx_None [of bytes c] show ?thesis
    by (cases "bytes = []"; cases "connection_state c")
      (auto simp: call_send_def rust_assert_def debug_assert_def conn_ok_def tx_ok_def)
next
  case False
  then obtain c1 where W: "write_tx bytes c = Some c1" using write_tx_None by fastforce
  then obtain q where c1: "c1 = c\<lparr>tx_buf := (tx_buf c)\<lparr>tx_queue := q\<rparr>\<rparr>" by (rule write_tx_frame)
  have "cookies_left c1" using k by (simp add: c1 cookies_left_def)
  note K = suspend_defined(2) [OF this]
  show ?thesis
  proof (cases "connection_state c")
    case (Established t r cc ca)
    have "t = Open" using ok False Established by (auto simp: conn_ok_def tx_ok_def)
    with Established have "can_ack c1" by (simp add: c1 can_ack_def)
    then have "send_ack E c1 \<noteq> None" by (elim send_ack_spec [of _ E]) simp
    with False W Established \<open>t = Open\<close> show ?thesis
      by (auto simp: call_send_def panic_simps Let_def)
  qed (use False W K in \<open>auto simp: call_send_def Let_def panic_simps\<close>)
qed

lemma panic_recv:
  assumes ok: "conn_wf c" and k: "cookies_left c"
  shows "call_recv E buf c = None \<longleftrightarrow> call_panics E (DoRecv buf) c"
proof (cases "connection_state c")
  case (Established t rx cc ca)
  have d: "rx_done (rx_buf c) \<longleftrightarrow> rx = ChannelState.Closed"
    using ok Established by (simp add: conn_ok_def rx_ok_def)
  show ?thesis
  proof (cases "rx_read_bytes (length buf) (rx_buf c)")
    case None
    then have N: "buf = [] \<or> rx_done (rx_buf c) \<or>
        length (rx_stream (rx_buf c)) < length buf \<and> \<not> rx_fin (rx_buf c)"
      by (simp add: rx_read_bytes_eq_None)
    show ?thesis
    proof (cases rx)
      case Open
      with Established d N None k show ?thesis
        by (auto simp: call_recv_def rx_available_stream bind_eq_None_conv case_prod_beta)
    next
      case Fin
      with Established d N None show ?thesis by (auto simp: call_recv_def)
    next
      case Closed
      with Established show ?thesis by (simp add: call_recv_def)
    qed
  next
    case (Some p)
    then obtain bytes b where R: "rx_read_bytes (length buf) (rx_buf c) = Some (bytes, b)"
      by (cases p) simp
    note D = rx_read_bytesD [OF R]
    have S: "set_state E (ConnectionState.Established t ChannelState.Closed cc ca) (c\<lparr>rx_buf := b\<rparr>) = None
        \<longleftrightarrow> debug_assertions E \<and> cc \<and> t = Open"
      using Established validate_Established_iff [of t rx cc ca t ChannelState.Closed cc ca]
      by (cases "debug_assertions E"; cases "closing (ConnectionState.Established t ChannelState.Closed cc ca)")
        (auto simp: set_state_closing set_state_not_closing)
    show ?thesis
    proof (cases rx)
      case Open
      with Established D R k show ?thesis
        by (auto simp: call_recv_def rx_available_stream bind_eq_None_conv case_prod_beta rust_assert_def
            simp del: not_None_eq)
    next
      case Fin
      with Established D R S show ?thesis
        by (auto simp: call_recv_def panic_simps bind_eq_None_conv min_def split: if_splits)
    next
      case Closed
      with Established show ?thesis by (simp add: call_recv_def)
    qed
  qed
qed (use k in \<open>auto simp: call_recv_def bind_eq_None_conv case_prod_beta\<close>)

lemma panic_fin_syn_received:
  assumes "connection_state c = SynReceived" and k: "cookies_left c"
  obtains c1 c2 where "mark_fin_and_send E c = Some c1" 
    and "set_state E (ConnectionState.Established Fin Open cc True) c1 = Some c2"
    and "cookies_left c2"
proof -
  have "can_ack c" using assms(1) by (simp add: can_ack_def)
  then obtain c1 where M: "mark_fin_and_send E c = Some c1" and ev: "evolves E c c1"
    and s: "connection_state c1 = (if length (tx_stream c) < ack_limit c \<and> state_tx (connection_state c) = Open
           then fin_state (connection_state c) else connection_state c)"
    by (rule mark_fin_and_send_spec)
  then have S: "set_state E (ConnectionState.Established Fin Open cc True) c1
      = Some (enter_state E (ConnectionState.Established Fin Open cc True) c1)"
    using assms(1) validate_Established_iff [of Fin Open False False Fin Open cc True]
    by (cases "debug_assertions E") (auto simp: set_state_not_closing)
  have "evolves E c (enter_state E (ConnectionState.Established Fin Open cc True) c1)"
    by (rule evolves_set_state [OF S ev]) simp_all
  from that [OF M S evolves_cookies_left [OF this k]] show thesis .
qed

lemma panic_shutdown:
  assumes ok: "conn_wf c" and k: "cookies_left c"
  shows "call_shutdown E c = None \<longleftrightarrow> call_panics E DoShutdown c"
proof (cases "connection_state c")
  case SynReceived
  then obtain c1 c2 where "mark_fin_and_send E c = Some c1" 
    "set_state E (ConnectionState.Established Fin Open False True) c1 = Some c2"
    using k by (rule panic_fin_syn_received)
  with SynReceived k show ?thesis by (simp add: call_shutdown_def del: not_None_eq)
next
  case (Established t r cc ca)
  have can: "can_ack c'" if "connection_state c' = ConnectionState.Established t r cc ca'" "t = Open" for c' ca'
    using that by (simp add: can_ack_def)
  have M: "mark_fin_and_send E c' \<noteq> None" if "connection_state c' = ConnectionState.Established t r cc ca'" "t = Open" for c' ca'
    using can [OF that] by (elim mark_fin_and_send_spec [of _ E]) simp
  have S: "set_state E (ConnectionState.Established Open r cc True) c
      = (if debug_assertions E \<and> cc then None
         else Some (enter_state E (ConnectionState.Established Open r cc True) c))" if "t = Open"
    using that Established validate_Established_iff [of Open r cc ca Open r cc True]
    by (cases "debug_assertions E") (auto simp: set_state_not_closing)
  show ?thesis
    using Established k M [of c ca]
      M [of "enter_state E (ConnectionState.Established Open r cc True) c" True] S
    by (cases t; cases "debug_assertions E \<and> cc")
      (auto simp: call_shutdown_def idle_def available_bytes_contents bind_eq_None_conv
        simp del: not_None_eq)
qed (simp_all add: call_shutdown_def)

lemma panic_close_established:
  assumes st: "connection_state c = ConnectionState.Established t r cc ca" and "ca \<longrightarrow> ca'"
    and k: "cookies_left c"
  shows "close_established E ca' c = None \<longleftrightarrow> debug_assertions E \<and> t = Open \<and> cc"
proof (cases "debug_assertions E \<and> t = Open \<and> cc")
  case True
  with st validate_Established_iff [of t r cc ca t r True ca'] show ?thesis
    by (auto simp: close_established_def set_state_not_closing)
next
  case False
  then have "set_state E (ConnectionState.Established t r True ca') c \<noteq> None"
    using assms(2) st validate_Established_iff [of t r cc ca t r True ca']
    by (cases "debug_assertions E"; cases "closing (ConnectionState.Established t r True ca')")
      (auto simp: set_state_closing set_state_not_closing)
  then obtain c1 where S: "set_state E (ConnectionState.Established t r True ca') c = Some c1" by auto
  have "evolves E c c1" by (rule evolves_set_state [OF S]) simp_all
  then have "cookies_left c1" using k by (rule evolves_cookies_left)
  with False S st show ?thesis
    by (simp add: close_established_def Let_def del: not_None_eq)
qed

lemma panic_close:
  assumes ok: "conn_wf c" and k: "cookies_left c"
  shows "call_close E c = None \<longleftrightarrow> call_panics E DoClose c"
proof (cases "connection_state c")
  case SynReceived
  then obtain c1 c2 where "mark_fin_and_send E c = Some c1" 
    "set_state E (ConnectionState.Established Fin Open True True) c1 = Some c2" "cookies_left c2"
    using k by (rule panic_fin_syn_received)
  with SynReceived k show ?thesis by (simp add: call_close_def del: not_None_eq)
next
  case (Established t r cc ca)
  show ?thesis
  proof (cases "t = Open \<and> idle c")
    case True
    have "can_ack c" using Established True by (simp add: can_ack_def)
    then obtain c1 where M: "mark_fin_and_send E c = Some c1" and ev: "evolves E c c1"
      and s: "connection_state c1 = (if length (tx_stream c) < ack_limit c \<and> state_tx (connection_state c) = Open
             then fin_state (connection_state c) else connection_state c)"
      by (rule mark_fin_and_send_spec)
    from s True Established have "connection_state c1
        = ConnectionState.Established (if ack_limit c = 0 then Open else Fin) r cc ca"
      by (simp add: idle_def)
    from panic_close_established [OF this, of "if r = Open then True else ca" E]
      evolves_cookies_left [OF ev k] M True Established
    show ?thesis by (auto simp: call_close_def idle_def available_bytes_contents)
  next
    case False
    with Established panic_close_established [OF Established, of "if r = Open then True else ca" E] k
    show ?thesis
      by (auto simp: call_close_def idle_def available_bytes_contents simp del: not_None_eq)
  qed
qed (simp_all add: call_close_def)

lemma conn_step_None:
  assumes ok: "conn_wf c" and k: "cookies_left c" and x: "is_call x"
  shows "conn_step E x c = None \<longleftrightarrow> call_panics E x c"
proof (cases x)
  case DoConnect
  with panic_connect [OF k] show ?thesis by (simp del: not_None_eq)
qed (use assms in \<open>simp_all add: panic_send panic_recv panic_shutdown panic_close del: call_panics.simps(1-4)\<close>)

section \<open>Properties\<close>

text \<open>
  C7: the results of the calls. Whatever state a reachable connection is in, a call that
  returns gives one of the results listed for that state (\<open>result_type\<close>):
  an error for a connection that is gone or going, a cookie where the call has to wait, and
  otherwise success; a receive never returns more than the buffer holds, less than that only
  once the peer has sent its FIN, and 0 after the end of the stream. \<open>Error::Closed\<close> and
  \<open>Error::Listening\<close> are never the result of a connection's call.
\<close>

theorem calls_return_typed_results:
  assumes "reachable E c" and "conn_step E x c = Some (r, c')"
  shows "result_type x (connection_state c) r"
  using assms by (blast intro: conn_step_type reachable_wf)

theorem calls_return_typed_results_witness:
  "\<exists>r c'. conn_step (demo_env True) DoClose demo_established = Some (r, c') \<and>
     (\<exists>k. r = Err (RetryAfter k) \<or> r = Err (ContinueAfter k))"
  using calls_return_typed_results [OF demo_reachable(2) demo_close] demo_close
  by (auto simp: demo_established_def FULLY_OPEN_def)

text \<open>
  C6: the user's calls panic on exactly these inputs (\<open>call_panics\<close>), as long as cookies are
  left: connect and abort never; send on empty data, and once the transmit stream is marked
  with its end; receive into an empty buffer while the receive channel lives, and, after a FIN
  that carried no ACK, when the buffer is larger than what is stored; and in debug builds
  three calls on a connection on which close was called while the peer's window was full:
  shutdown, close again, and the read that reaches the end of the stream.
\<close>

theorem calls_panic_exactly_on_known_defects:
  assumes "reachable E c" and "cookies_left c" and "is_call x"
  shows "conn_step E x c = None \<longleftrightarrow> call_panics E x c"
  using conn_step_None [OF reachable_wf [OF assms(1)] assms(2,3)] .

theorem calls_panic_exactly_on_known_defects_witness:
  "conn_step (demo_env True) (DoRecv []) demo_established = None \<and>
   conn_step (demo_env True) (DoSend [1]) demo_closing = None \<and>
   conn_step (demo_env True) DoShutdown demo_established \<noteq> None"
proof -
  have k: "cookies_left demo_established" "cookies_left demo_closing"
    by (simp_all add: cookies_left_def demo_established_def demo_closing_def)
  note P = calls_panic_exactly_on_known_defects [OF demo_reachable(2) k(1)]
  have "call_panics (demo_env True) (DoRecv []) demo_established"
    "call_panics (demo_env True) (DoSend [1]) demo_closing"
    "\<not> call_panics (demo_env True) DoShutdown demo_established"
    by (auto simp: demo_established_def demo_closing_def FULLY_OPEN_def)
  with P [of "DoRecv []"] P [of DoShutdown]
    calls_panic_exactly_on_known_defects [OF demo_reachable(3) k(2), of "DoSend [1]"]
  show ?thesis by (simp only: is_call.simps) blast
qed

end
