(* ===== verification/Tcp_Session.thy ===== *)
theory Tcp_Session
  imports Tcp_Exchange Tcp_Listener Tcp_CallSafety
begin

text \<open>
  The handshake, from \<open>call_connect\<close> over the listener's backlog and \<open>accept\<close> to two open
  connections, and the theorem that a session delivers every chunk.
\<close>

section \<open>Opening\<close>

definition ready_server :: "('b, 'u) ListenSocket \<Rightarrow> bool" where
  "ready_server s \<longleftrightarrow> listen_open s \<and> listen_queue s = [] \<and> 0 < backlog s"

text \<open>No call waits for an acknowledgement, and cookies are left: what close needs.\<close>

definition may_close :: "('a, 't) Connection \<Rightarrow> bool" where
  "may_close c \<longleftrightarrow> \<not> any_suspended is_Acknowledged (events c) \<and> cookies_left c"

lemma may_close_evolves: "evolves E c c' \<Longrightarrow> may_close c \<Longrightarrow> may_close c'"
  by (auto simp: may_close_def evolves_def cookies_left_def any_suspended_iff)

definition syn :: "SeqN \<Rightarrow> SegmentMeta" where
  "syn i = \<lparr>seqn = i, ackn = 0, window = INITIAL_WINDOW_SIZE, flags = SYN, data = []\<rparr>"

definition syn_ack :: "SeqN \<Rightarrow> SeqN \<Rightarrow> SegmentMeta" where
  "syn_ack i j = \<lparr>seqn = j, ackn = i + 1, window = INITIAL_WINDOW_SIZE, flags = flags_or SYN ACK, data = []\<rparr>"

lemma window_default [simp]:
  "curr_window RxBuffer_default = INITIAL_WINDOW_SIZE"
  "curr_window (rx_init i RxBuffer_default) = INITIAL_WINDOW_SIZE"
  by (simp_all add: word_unat_eq_iff unat_curr_window)

lemma client_connects:
  fixes E :: "('a, 't) env" and h :: "('a, 't) history"
  defines "i \<equiv> new_seqn E h"
  obtains r a where "call_connect E (Connection_new addr h) = Some (r, a)"
    and "connection_state a = SynSent" and "rx_buf a = RxBuffer_default" and "timings a = Timings_default"
    and "exp_backoff a = 1" and "congestion_window a = INITIAL_WINDOW_SIZE" and "dup_ack_count a = 0"
    and "options a = SocketOptions_default" and "tx_buf a = on_send (syn i) (tx_init i TxBuffer_default)"
    and "sent_since h (user_data a) = Some (syn i)" and "timer_timewait (timers a) = None" and "timer_usertime (timers a) = None"
    and "may_close a"
proof -
  have e: "enter_state E SynSent (Connection_new addr h)
      = (Connection_new addr h)\<lparr>connection_state := SynSent\<rparr>"
    by (simp add: enter_state_def out_clear_def established_triggers_def)
  then have "\<exists>r a. call_connect E (Connection_new addr h) = Some (r, a) \<and>
    connection_state a = SynSent \<and> rx_buf a = RxBuffer_default \<and> timings a = Timings_default \<and>
    exp_backoff a = 1 \<and> congestion_window a = INITIAL_WINDOW_SIZE \<and> dup_ack_count a = 0 \<and>
    options a = SocketOptions_default \<and> tx_buf a = on_send (syn i) (tx_init i TxBuffer_default) \<and>
    sent_since h (user_data a) = Some (syn i) \<and> timer_timewait (timers a) = None \<and> timer_usertime (timers a) = None \<and>
    may_close a"
    by (simp add: call_connect_def set_state_not_closing user_new_seqn_def Let_def SeqN_new_def
        continue_after_def return_continue_after_def new_cookie_def cookie_next_def ovf_add_def
        Events_new_def Cookie_ZERO_def SeqN_ZERO_def syn_def i_def sent_since_def history_simps
        Connection_new_def hash_insert_def may_close_def cookies_left_def any_suspended_def
        is_Acknowledged_def)
  with that show thesis by blast
qed

lemma server_accepts:
  fixes E :: "('b, 'u) env"
  assumes "ready_server s"
  obtains s' b j where "listen_accept E f (listen_on_segment E addr (syn i) s) = Some (Ok (addr, b), s')"
    and "connection_state b = SynReceived" and "rx_buf b = rx_init i RxBuffer_default"
    and "timings b = Timings_default" and "congestion_window b = INITIAL_WINDOW_SIZE" and "dup_ack_count b = 0"
    and "tx_buf b = (on_send (syn_ack i j) (tx_init j TxBuffer_default))\<lparr>tx_window := INITIAL_WINDOW_SIZE\<rparr>"
    and "sent_since (f s') (user_data b) = Some (syn_ack i j)" and "may_close b"
proof -
  have "\<exists>s' b j. listen_accept E f (listen_on_segment E addr (syn i) s) = Some (Ok (addr, b), s') \<and>
    connection_state b = SynReceived \<and> rx_buf b = rx_init i RxBuffer_default \<and>
    timings b = Timings_default \<and> congestion_window b = INITIAL_WINDOW_SIZE \<and> dup_ack_count b = 0 \<and>
    tx_buf b = (on_send (syn_ack i j) (tx_init j TxBuffer_default))\<lparr>tx_window := INITIAL_WINDOW_SIZE\<rparr> \<and>
    sent_since (f s') (user_data b) = Some (syn_ack i j) \<and> may_close b"
    using assms
    by (simp add: listen_accept_def listen_on_segment_def ready_server_def syn_def syn_ack_def flag_simps
        set_state_not_closing on_segment_def on_segment_listen_def Let_def user_new_seqn_def
        enter_state_def out_clear_def established_triggers_def SeqN_new_def history_simps sent_since_def
        wrapping_add_def Connection_new_def may_close_def cookies_left_def any_suspended_def
        Events_new_def Cookie_ZERO_def)
  with that show thesis by blast
qed

lemma on_send_first:
  assumes "re_tx tx = []" and "seg_len seg = 1"
  shows "on_send seg (tx_init i tx) = tx\<lparr>tx_init_seqn := i, unack := i, tx_next := i + 1, re_tx := [seg],
    last_sent := Some (seqn seg, ackn seg, window seg)\<rparr>"
  using assms by (simp add: on_send_def tx_init_def seq_size_of_nat wrapping_add_def Let_def)

lemma client_opens:
  assumes a: "connection_state a = SynSent" "rx_buf a = RxBuffer_default" "timings a = Timings_default"
    "exp_backoff a = 1" "congestion_window a = INITIAL_WINDOW_SIZE" "dup_ack_count a = 0"
    "options a = SocketOptions_default" "tx_buf a = on_send (syn i) (tx_init i TxBuffer_default)"
    "timer_timewait (timers a) = None" "timer_usertime (timers a) = None"
  obtains a' where "on_segment E (syn_ack i j) a = Some a'" and "open_idle a'" and "may_send a'"
    and "tx_next (tx_buf a') = i + 1" and "ackd (rx_buf a') = j + 1"
    and "sent_since (user_data a) (user_data a')
      = Some \<lparr>seqn = i + 1, ackn = j + 1, window = INITIAL_WINDOW_SIZE, flags = ACK, data = []\<rparr>"
proof -
  let ?c0 = "clear_re_tx_range E (i + 1) (a\<lparr>rx_buf := rx_init j RxBuffer_default\<rparr>)"
  let ?c1 = "enter_state E FULLY_OPEN
      (?c0\<lparr>tx_buf := (tx_buf ?c0)\<lparr>unack := i + 1, tx_window := INITIAL_WINDOW_SIZE\<rparr>\<rparr>)"
  have tx: "tx_buf a = TxBuffer_default\<lparr>tx_init_seqn := i, unack := i, tx_next := i + 1, re_tx := [syn i],
      last_sent := Some (i, 0, INITIAL_WINDOW_SIZE)\<rparr>"
    using a(8) on_send_first [of TxBuffer_default "syn i" i] by (simp add: syn_def seg_len_def flag_simps)
  have after: "seqn_after (syn i) = i + 1"
    by (simp add: seqn_after_def syn_def seq_size_of_nat seg_len_def flag_simps wrapping_add_def)
  have txq: "tx_queue TxBuffer_default = BlobQueue_new" by (simp add: TxBuffer_default_def)
  obtain a' q where A: "send_ack E ?c1 = Some a'" "connection_state a' = connection_state ?c1" "rx_buf a' = rx_buf ?c1"
    "timings a' = timings ?c1" "exp_backoff a' = exp_backoff ?c1" "congestion_window a' = congestion_window ?c1"
    "dup_ack_count a' = dup_ack_count ?c1" "timers a' = timers ?c1" "options a' = options ?c1"
    "tx_buf a' = (tx_buf ?c1)\<lparr>tx_queue := q, last_sent :=
           Some (tx_next (tx_buf ?c1), ackd (rx_buf ?c1), curr_window (rx_buf ?c1))\<rparr>"
    "contents q = []" "fin q = tx_fin_marked ?c1" "sent_segments (user_data a') = sent_segments (user_data ?c1) @
           (if last_sent (tx_buf ?c1) = Some (tx_next (tx_buf ?c1), ackd (rx_buf ?c1), curr_window (rx_buf ?c1))
            then [] else [(remote ?c1, ack_segment ?c1)])"
    by (rule send_ack_nothing [of ?c1 E]) (simp_all add: tx ack_fin_def)
  have S: "on_segment E (syn_ack i j) a = Some a'"
    using a(1,2) A(1)
    by (simp add: on_segment_def on_segment_syn_sent_def syn_ack_def flag_simps tx in_range_one
        set_state_not_closing FULLY_OPEN_def Let_def wrapping_add_def)
  have new: "sent_since (user_data a) (user_data a') = Some (ack_segment ?c1)"
    using A(13) by (intro sent_since_snoc) (simp add: tx)
  show thesis
    by (rule that [OF S]) (use a(3-7,9,10) A(2-12) tx after new in
      \<open>simp_all add: open_idle_def may_send_def ack_segment_def ack_fin_def SocketOptions_default_def
        INITIAL_WINDOW_SIZE_def\<close>)
qed

lemma server_opens:
  assumes b: "connection_state b = SynReceived" "rx_buf b = rx_init i RxBuffer_default"
    "timings b = Timings_default" "congestion_window b = INITIAL_WINDOW_SIZE" "dup_ack_count b = 0"
    "tx_buf b = (on_send (syn_ack i j) (tx_init j TxBuffer_default))\<lparr>tx_window := INITIAL_WINDOW_SIZE\<rparr>"
    and seg: "seg = \<lparr>seqn = i + 1, ackn = j + 1, window = INITIAL_WINDOW_SIZE, flags = ACK, data = []\<rparr>"
  obtains b' where "on_segment E seg b = Some b'" and "open_idle b'" and "tx_next (tx_buf b') = j + 1"
    and "dup_ack_count b' = 0" and "congestion_window b' = INITIAL_WINDOW_SIZE"
    and "ackd (rx_buf b') = i + 1" and "\<exists>s w. last_sent (tx_buf b') = Some (s, i + 1, w)"
proof -
  let ?b0 = "b\<lparr>tx_buf := (tx_buf b)\<lparr>tx_window := INITIAL_WINDOW_SIZE\<rparr>\<rparr>"
  let ?b1 = "enter_state E FULLY_OPEN ?b0"
  have tx: "tx_buf b = TxBuffer_default\<lparr>tx_init_seqn := j, unack := j, tx_next := j + 1,
      re_tx := [syn_ack i j], last_sent := Some (j, i + 1, INITIAL_WINDOW_SIZE), tx_window := INITIAL_WINDOW_SIZE\<rparr>"
    using b(6) on_send_first [of TxBuffer_default "syn_ack i j" j]
    by (simp add: syn_ack_def seg_len_def flag_simps)
  have after: "seqn_after (syn_ack i j) = j + 1"
    by (simp add: seqn_after_def syn_ack_def seq_size_of_nat seg_len_def flag_simps wrapping_add_def)
  have size: "seq_size seg = 0" by (simp add: seg seq_size_of_nat seg_len_def flag_simps)
  obtain b2 where N: "on_new_ack E seg ?b1 = Some b2" "connection_state b2 = connection_state ?b1"
    "rx_buf b2 = rx_buf ?b1" "tx_buf b2 = (tx_buf ?b1)\<lparr>re_tx := [], unack := ackn seg,
           tx_window := min (window seg) INITIAL_WINDOW_SIZE\<rparr>" "dup_ack_count b2 = 0"
    "congestion_window b2 = INITIAL_WINDOW_SIZE" "timings b2 = timings ?b1"
    by (rule on_new_ack_all [of ?b1 "syn_ack i j" seg E]) (use b(4,5) tx after in \<open>simp_all add: seg\<close>)
  have W: "rx_write (debug_assertions E) seg (rx_buf b) = Some (rx_buf b)"
    using size by (cases "rx_buf b") (simp add: rx_write_cases seg flag_simps)
  obtain b' q where A: "send_ack E b2 = Some b'" "connection_state b' = connection_state b2" "rx_buf b' = rx_buf b2"
    "timings b' = timings b2" "congestion_window b' = congestion_window b2" "dup_ack_count b' = dup_ack_count b2"
    "tx_buf b' = (tx_buf b2)\<lparr>tx_queue := q, last_sent :=
           Some (tx_next (tx_buf b2), ackd (rx_buf b2), curr_window (rx_buf b2))\<rparr>"
    "contents q = []" "fin q = tx_fin_marked b2"
    by (rule send_ack_nothing [of b2 E]) (use N(2,4) tx in \<open>simp_all add: ack_fin_def\<close>)
  have A1: "send_ack E (b2\<lparr>rx_buf := rx_buf b\<rparr>) = Some b'" using A(1) N(3) by (cases b2) simp
  have ack: "on_ack E seg ?b0 = Some (True, b')"
    using b(1,2) tx N(1-3) W A1
    by (simp add: on_ack_def set_state_not_closing seg in_range_one on_ack_of_fin_def FULLY_OPEN_def
        store_segment_def)
  have acc: "check_segment_seq_ok b seg"
    using b(2) in_window_unat [of "rx_buf b" "i + 1"] size
    by (simp add: check_segment_seq_ok_def seg window_bound_eq) (simp add: INITIAL_WINDOW_SIZE_def)
  have "min (window seg) (congestion_window b) = INITIAL_WINDOW_SIZE" using b(4) by (simp add: seg)
  then have S: "on_segment E seg b = Some b'"
    using acc ack A(2) by (simp add: on_segment_def b(1) on_segment_synchronized_def) (simp add: seg flag_simps)
  show thesis
    by (rule that [OF S]) (use b(2,3) A(2-9) N(2-7) tx in \<open>simp_all add: open_idle_def seg\<close>)
qed

lemma session_opens:
  fixes Ea :: "('a, 't::linorder) env" and Eb :: "('b, 'u) env"
  assumes "ready_server s"
  obtains a b where "open_session Ea Eb f addr (Connection_new peer h) s = Some (a, b)" and "linked a b"
    and "tx_next (tx_buf a) = new_seqn Ea h + 1" and "may_close a" and "may_close b"
proof -
  let ?i = "new_seqn Ea h"
  obtain r a0 where C: "call_connect Ea (Connection_new peer h) = Some (r, a0)"
    and a0: "connection_state a0 = SynSent" "rx_buf a0 = RxBuffer_default" "timings a0 = Timings_default"
    "exp_backoff a0 = 1" "congestion_window a0 = INITIAL_WINDOW_SIZE" "dup_ack_count a0 = 0"
    "options a0 = SocketOptions_default" "tx_buf a0 = on_send (syn ?i) (tx_init ?i TxBuffer_default)"
    and new: "sent_since h (user_data a0) = Some (syn ?i)"
    and t: "timer_timewait (timers a0) = None" "timer_usertime (timers a0) = None"
    and free: "may_close a0"
    by (rule client_connects)
  obtain s' b0 j where L: "listen_accept Eb f (listen_on_segment Eb addr (syn ?i) s) = Some (Ok (addr, b0), s')"
    and b0: "connection_state b0 = SynReceived" "rx_buf b0 = rx_init ?i RxBuffer_default"
    "timings b0 = Timings_default" "congestion_window b0 = INITIAL_WINDOW_SIZE" "dup_ack_count b0 = 0"
    "tx_buf b0 = (on_send (syn_ack ?i j) (tx_init j TxBuffer_default))\<lparr>tx_window := INITIAL_WINDOW_SIZE\<rparr>"
    and newb: "sent_since (f s') (user_data b0) = Some (syn_ack ?i j)" and freeb: "may_close b0"
    by (rule server_accepts [OF assms])
  obtain a where A: "on_segment Ea (syn_ack ?i j) a0 = Some a" "open_idle a" "may_send a"
    "tx_next (tx_buf a) = ?i + 1" "ackd (rx_buf a) = j + 1"
    and ack: "sent_since (user_data a0) (user_data a)
      = Some \<lparr>seqn = ?i + 1, ackn = j + 1, window = INITIAL_WINDOW_SIZE, flags = ACK, data = []\<rparr>" (is "_ = Some ?ack")
    by (rule client_opens [OF a0 t])
  obtain b where B: "on_segment Eb ?ack b0 = Some b" "open_idle b" "tx_next (tx_buf b) = j + 1"
    "dup_ack_count b = 0" "congestion_window b = INITIAL_WINDOW_SIZE" "ackd (rx_buf b) = ?i + 1" "\<exists>s w. last_sent (tx_buf b) = Some (s, ?i + 1, w)"
    by (rule server_opens [OF b0 refl])
  have "may_close a" "may_close b"
    using may_close_evolves [OF evolves_on_segment [OF A(1)] free]
      may_close_evolves [OF evolves_on_segment [OF B(1)] freeb] by simp_all
  then show thesis
    by (intro that [of a b]) (use A B in \<open>simp_all add: open_session_def C new L newb ack linked_def\<close>)
qed

section \<open>Properties\<close>

text \<open>
  C2: a stream survives the round trip. For any user methods and build on either side, and any
  listening socket with an empty backlog: opening a session (connect, the backlog, accept, the
  SYN-ACK and the ACK) succeeds, and then every chunk the client sends, of up to
  \<open>MAX_SEGMENT_SIZE\<close> bytes, is read by the server, although up to 62 copies of each chunk in a
  row are lost: only a copy that the retransmission timer has sent after the last loss is
  delivered, and only acknowledgements the server has just sent. No call panics, nobody
  gets stuck, and what is read is what was sent, for streams of any length: the sequence numbers
  wrap as often as they like.
\<close>

theorem session_delivers_every_chunk:
  fixes Ea :: "('a, 't::linorder) env" and Eb :: "('b, 'u) env"
  assumes "listen_open s" and "listen_queue s = []" and "0 < backlog s"
    and "\<forall>(bytes, k) \<in> set chunks. bytes \<noteq> [] \<and> length bytes \<le> MAX_SEGMENT_SIZE \<and> k < 63"
  shows "\<exists>a b. Option.bind (open_session Ea Eb f addr (Connection_new peer h) s) (send_chunks Ea Eb chunks)
    = Some (concat (map fst chunks), a, b)"
proof -
  from assms(1-3) obtain a b where O: "open_session Ea Eb f addr (Connection_new peer h) s = Some (a, b)"
    and L: "linked a b"
    by (auto simp: ready_server_def intro: session_opens [of s Ea Eb f addr peer h])
  from chunks_arrive [OF L assms(4), of Ea Eb] O show ?thesis by auto
qed

theorem session_delivers_every_chunk_witness:
  "\<exists>a b. Option.bind (open_session (demo_env True) (demo_env False) (\<lambda>_. []) 7 (Connection_new 9 [])
        (call_listen 1 []))
      (send_chunks (demo_env True) (demo_env False) [([1, 2, 3], 0), ([4], 5), ([5, 6], 62)])
    = Some ([1, 2, 3, 4, 5, 6], a, b)"
  using session_delivers_every_chunk [of "call_listen 1 []" "[([1, 2, 3], 0), ([4], 5), ([5, 6], 62)]"
      "demo_env True" "demo_env False" "\<lambda>_. []" 7 9 "[]"]
  by (simp add: call_listen_def MAX_SEGMENT_SIZE_def)

end
