(* ===== verification/Tcp_Close.thy ===== *)
theory Tcp_Close
  imports Tcp_Session
begin

text \<open>
  The close of a session by both sides: the FIN of either side, its acknowledgement, and the
  readers that are told the end of the stream. With it a session is followed from \<open>call_connect\<close>
  to TIME-WAIT.
\<close>

section \<open>The system\<close>

text \<open>
  The client closes, its FIN and the ACK of it are delivered, and the server's user reads the end
  of the stream.
\<close>

definition close_client ::
  "('a, 't) env \<Rightarrow> ('b, 'u) env \<Rightarrow> ('a, 't) Connection \<times> ('b, 'u) Connection
     \<Rightarrow> ((Error + nat) \<times> ('a, 't) Connection \<times> ('b, 'u) Connection) option" where
  "close_client Ea Eb s = (case s of (a, b) \<Rightarrow> do {
     (_, a1) \<leftarrow> call_close Ea a;
     fin \<leftarrow> sent_since (user_data a) (user_data a1);
     b1 \<leftarrow> on_segment Eb fin b;
     ack \<leftarrow> sent_since (user_data b) (user_data b1);
     a2 \<leftarrow> on_segment Ea ack a1;
     (r, _, b2) \<leftarrow> call_recv Eb [0] b1;
     Some (r, a2, b2)
   })"

text \<open>The server closes too, its FIN and the ACK of it are delivered, and the client's user reads.\<close>

definition close_server ::
  "('a, 't) env \<Rightarrow> ('b, 'u) env \<Rightarrow> ('a, 't) Connection \<times> ('b, 'u) Connection
     \<Rightarrow> ((Error + nat) \<times> ('a, 't) Connection \<times> ('b, 'u) Connection) option" where
  "close_server Ea Eb s = (case s of (a, b) \<Rightarrow> do {
     (_, b1) \<leftarrow> call_close Eb b;
     fin \<leftarrow> sent_since (user_data b) (user_data b1);
     a1 \<leftarrow> on_segment Ea fin a;
     ack \<leftarrow> sent_since (user_data a) (user_data a1);
     b2 \<leftarrow> on_segment Eb ack b1;
     (r, _, a2) \<leftarrow> call_recv Ea [0] a1;
     Some (r, a2, b2)
   })"

section \<open>Nothing in flight\<close>

text \<open>What the steps of the close keep: empty buffers and an undisturbed window.\<close>

definition empty_buffers :: "('a, 't) Connection \<Rightarrow> bool" where
  "empty_buffers c \<longleftrightarrow> tx_stream c = [] \<and> rx_stream (rx_buf c) = [] \<and>
     rx_window (rx_buf c) = INITIAL_WINDOW_SIZE \<and> dup_ack_count c = 0 \<and>
     congestion_window c = INITIAL_WINDOW_SIZE"

definition settled :: "('a, 't) Connection \<Rightarrow> bool" where
  "settled c \<longleftrightarrow> empty_buffers c \<and> re_tx (tx_buf c) = [] \<and> unack (tx_buf c) = tx_next (tx_buf c)"

definition fin_segment :: "('a, 't) Connection \<Rightarrow> SegmentMeta" where
  "fin_segment c = \<lparr>seqn = tx_next (tx_buf c), ackn = ackd (rx_buf c), window = curr_window (rx_buf c),
     flags = flags_or FIN ACK, data = []\<rparr>"

definition ack_reply :: "('a, 't) Connection \<Rightarrow> SegmentMeta" where
  "ack_reply c = \<lparr>seqn = tx_next (tx_buf c), ackn = ackd (rx_buf c), window = curr_window (rx_buf c),
     flags = ACK, data = []\<rparr>"

lemma fin_segment_len [simp]: "seg_len (fin_segment c) = 1" "seq_size (fin_segment c) = 1"
  by (simp_all add: seg_len_def fin_segment_def flag_simps seq_size_of_nat)

lemma ack_reply_len [simp]: "seg_len (ack_reply c) = 0" "seq_size (ack_reply c) = 0"
  by (simp_all add: seg_len_def ack_reply_def flag_simps seq_size_of_nat)

section \<open>Closing\<close>

lemma close_sends_fin:
  assumes st: "connection_state c = ConnectionState.Established Open r False False"
    and s: "settled c" "may_close c" "0 < tx_window (tx_buf c)"
  obtains res c' where "call_close E c = Some (res, c')"
    and "connection_state c' = ConnectionState.Established Fin r True (r = Open)"
    and "empty_buffers c'" and "rx_buf c' = rx_buf c" and "tx_fin_marked c'"
    and "unack (tx_buf c') = tx_next (tx_buf c)" and "tx_next (tx_buf c') = tx_next (tx_buf c) + 1"
    and "re_tx (tx_buf c') = [fin_segment c]" and "sent_since (user_data c) (user_data c') = Some (fin_segment c)"
    and "last_sent (tx_buf c') = Some (tx_next (tx_buf c), ackd (rx_buf c), curr_window (rx_buf c))"
proof -
  have idle: "tx_stream c = []" "re_tx (tx_buf c) = []" "unack (tx_buf c) = tx_next (tx_buf c)"
    and buf: "empty_buffers c" and free: "\<not> any_suspended is_Acknowledged (events c)" "cookies_left c"
    using s by (simp_all add: settled_def empty_buffers_def may_close_def)
  let ?c0 = "c\<lparr>tx_buf := (tx_buf c)\<lparr>tx_queue := mark_fin (tx_queue (tx_buf c))\<rparr>\<rparr>"
  have "unat (space_available (tx_buf ?c0)) = unat (tx_window (tx_buf c))"
    using space_available_unat [of "tx_buf ?c0"] idle(3) by simp
  moreover have "0 < unat (tx_window (tx_buf c))" using s(3) by (simp add: word_less_nat_alt)
  ultimately have limit: "0 < ack_limit ?c0" by (simp add: ack_limit_def MAX_SEGMENT_SIZE_def)
  then have fin: "ack_fin ?c0" using idle(1) st by (simp add: ack_fin_def)
  have seg: "ack_segment ?c0 = fin_segment c"
    using fin idle(1) by (simp add: ack_segment_def fin_segment_def)
  have dup: "\<not> ack_duplicate ?c0" using not_duplicate [of ?c0] by (simp add: seg)
  obtain c1 q where A: "send_ack E ?c0 = Some c1" "evolves E ?c0 c1"
    "connection_state c1 = (if ack_fin ?c0 then fin_state (connection_state ?c0) else connection_state ?c0)"
    "rx_buf c1 = rx_buf ?c0" "congestion_window c1 = congestion_window ?c0"
    "dup_ack_count c1 = dup_ack_count ?c0" "contents q = drop (ack_limit ?c0) (tx_stream ?c0)"
    "fin q = tx_fin_marked ?c0"
    "tx_buf c1 = (if ack_duplicate ?c0 then tx_buf ?c0 else on_send (ack_segment ?c0) (tx_buf ?c0))
           \<lparr>tx_queue := q\<rparr>"
    "sent_segments (user_data c1) = sent_segments (user_data ?c0) @
           (if ack_duplicate ?c0 then [] else [(remote ?c0, ack_segment ?c0)])"
    by (rule send_ack_spec [of ?c0 E]) (use st idle in \<open>simp_all add: can_ack_def\<close>)
  have M: "mark_fin_and_send E c = Some c1" using A(1) by (simp add: mark_fin_and_send_def)
  have st1: "connection_state c1 = ConnectionState.Established Fin r False False"
    using A(3) fin st by simp
  let ?s = "ConnectionState.Established Fin r True (r = Open)"
  let ?c2 = "enter_state E ?s c1"
  have S: "set_state E ?s c1 = Some ?c2"
    using st1 validate_Established_iff [of Fin r False False Fin r True "r = Open"]
    by (cases "debug_assertions E") (auto simp: set_state_not_closing)
  have "cookies_left c1"
    using A(2) free(2) by (simp add: evolves_def cookies_left_def)
  moreover have "evolves E c1 ?c2" by (intro evolves_intros) simp
  ultimately have "cookies_left ?c2" by (rule evolves_cookies_left [rotated])
  then obtain res c' where K: "continue_after E BothClosed ?c2 = Some (res :: Error + unit, c')"
    using suspend_defined(2) [of ?c2 E BothClosed] by fastforce
  obtain k where c': "c' = ?c2\<lparr>events := (events ?c2)\<lparr>next_cookie := k,
      suspended := hash_insert (BothClosed, next_cookie (events ?c2)) (suspended (events ?c2))\<rparr>\<rparr>"
    by (rule continue_after_frame [OF K])
  have "close_established E (r = Open) c1 = Some (res, c')"
    using st1 S K by (simp add: close_established_def Let_def)
  then have C: "call_close E c = Some (res, c')"
    using st idle(1) free(1) M
    by (cases "r = Open") (simp_all add: call_close_def available_bytes_contents Let_def)
  have tx: "tx_buf c' = (tx_buf c)\<lparr>tx_queue := q, re_tx := [fin_segment c],
      tx_next := tx_next (tx_buf c) + 1,
      last_sent := Some (tx_next (tx_buf c), ackd (rx_buf c), curr_window (rx_buf c))\<rparr>"
    using A(9) dup idle(2) by (simp add: c' seg on_send_def wrapping_add_def Let_def) (simp add: fin_segment_def)
  have new: "sent_since (user_data c) (user_data c') = Some (fin_segment c)"
    using A(10) dup by (simp add: c' sent_since_def seg)
  show thesis
    by (rule that [OF C]) (use tx new buf A(4-8) idle in \<open>simp_all add: c' empty_buffers_def\<close>)
qed

section \<open>Receiving a FIN\<close>

lemma fin_arrives:
  assumes st: "connection_state c = ConnectionState.Established t Open cc ca" "t \<noteq> Fin" "cc \<longrightarrow> t \<noteq> Open"
    and s: "settled c" "\<not> rx_fin (rx_buf c)" "t = Open \<longrightarrow> \<not> tx_fin_marked c"
    and sent: "last_sent (tx_buf c) = Some (q, ackd (rx_buf c), w)"
    and seg: "seg = fin_segment d" "seqn seg = ackd (rx_buf c)" "ackn seg = tx_next (tx_buf c)"
  obtains c' where "on_segment E seg c = Some c'"
    and "connection_state c' = ConnectionState.Established t Fin cc ca"
    and "settled c'" and "rx_fin (rx_buf c')" and "rx_done (rx_buf c') = rx_done (rx_buf c)"
    and "tx_next (tx_buf c') = tx_next (tx_buf c)" and "tx_fin_marked c' = tx_fin_marked c"
    and "ackd (rx_buf c') = ackd (rx_buf c) + 1"
    and "tx_window (tx_buf c') = min (window seg) INITIAL_WINDOW_SIZE"
    and "sent_since (user_data c) (user_data c') = Some (ack_reply c')"
proof -
  let ?c0 = "c\<lparr>tx_buf := (tx_buf c)\<lparr>tx_window := min (window seg) (congestion_window c)\<rparr>\<rparr>"
  have S: "tx_stream c = []" "rx_stream (rx_buf c) = []" "rx_window (rx_buf c) = INITIAL_WINDOW_SIZE"
    "dup_ack_count c = 0" "congestion_window c = INITIAL_WINDOW_SIZE" "re_tx (tx_buf c) = []"
    "unack (tx_buf c) = tx_next (tx_buf c)"
    using s(1) by (simp_all add: settled_def empty_buffers_def)
  have fl: "flags_contains (flags seg) ACK" "\<not> flags_contains (flags seg) RST"
    "\<not> flags_contains (flags seg) SYN" "flags_contains (flags seg) FIN" and d: "data seg = []"
    and len: "seg_len seg = 1" "seq_size seg = 1"
    by (simp_all add: seg(1)) (simp_all add: fin_segment_def flag_simps)
  have acc: "check_segment_seq_ok c seg"
    using S s(2) seg(2) len by (intro in_order_accepted) (simp_all add: MAX_SEGMENT_SIZE_def)
  obtain rx where W: "rx_write (debug_assertions E) seg (rx_buf c) = Some rx"
    using s(2) d by (simp add: rx_write_cases)
  note D = rx_writeD [OF W]
  have nofin: "\<not> ack_fin (?c0\<lparr>rx_buf := rx\<rparr>)" using st(1) s(3) by (auto simp: ack_fin_def)
  obtain c1 q' where A: "send_ack E (?c0\<lparr>rx_buf := rx\<rparr>) = Some c1"
    "connection_state c1 = connection_state (?c0\<lparr>rx_buf := rx\<rparr>)" "rx_buf c1 = rx_buf (?c0\<lparr>rx_buf := rx\<rparr>)"
    "congestion_window c1 = congestion_window (?c0\<lparr>rx_buf := rx\<rparr>)"
    "dup_ack_count c1 = dup_ack_count (?c0\<lparr>rx_buf := rx\<rparr>)"
    "tx_buf c1 = (tx_buf (?c0\<lparr>rx_buf := rx\<rparr>))\<lparr>tx_queue := q', last_sent :=
           Some (tx_next (tx_buf (?c0\<lparr>rx_buf := rx\<rparr>)), ackd (rx_buf (?c0\<lparr>rx_buf := rx\<rparr>)),
             curr_window (rx_buf (?c0\<lparr>rx_buf := rx\<rparr>)))\<rparr>"
    "contents q' = []" "fin q' = tx_fin_marked (?c0\<lparr>rx_buf := rx\<rparr>)"
    "sent_segments (user_data c1) = sent_segments (user_data (?c0\<lparr>rx_buf := rx\<rparr>)) @
           (if last_sent (tx_buf (?c0\<lparr>rx_buf := rx\<rparr>)) = Some (tx_next (tx_buf (?c0\<lparr>rx_buf := rx\<rparr>)),
               ackd (rx_buf (?c0\<lparr>rx_buf := rx\<rparr>)), curr_window (rx_buf (?c0\<lparr>rx_buf := rx\<rparr>)))
            then [] else [(remote (?c0\<lparr>rx_buf := rx\<rparr>), ack_segment (?c0\<lparr>rx_buf := rx\<rparr>))])"
    by (rule send_ack_nothing [of "?c0\<lparr>rx_buf := rx\<rparr>" E])
      (use st(1) S(1) nofin in \<open>simp_all add: can_ack_def\<close>)
  have "on_ack_of_fin E seg ?c0 = Some ?c0" using st by (simp add: on_ack_of_fin_def)
  then have ack: "on_ack E seg ?c0 = Some (True, c1)"
    using st(1) S(7) seg(2,3) W A(1) by (simp add: on_ack_def store_segment_def)
  let ?s = "ConnectionState.Established t Fin cc ca"
  let ?c' = "enter_state E ?s (trigger_event E is_Recv (Ok ()) c1)"
  have "set_state E ?s (trigger_event E is_Recv (Ok ()) c1) = Some ?c'"
    using A(2) st validate_Established_iff [of t Open cc ca t Fin cc ca]
    by (cases "debug_assertions E") (auto simp: set_state_not_closing)
  then have F: "on_fin E b c1 = Some ?c'" for b using A(2) st(1) by (simp add: on_fin_def)
  have C: "on_segment E seg c = Some ?c'"
    using on_segment_data [OF st(1) acc fl(1-3), of E] ack fl(4) A(2) st(1) F by (simp add: Let_def)
  have "ackd rx \<noteq> ackd (rx_buf c)" using D(2) len by simp
  then have new: "sent_since (user_data c) (user_data ?c') = Some (ack_segment (?c0\<lparr>rx_buf := rx\<rparr>))"
    using A(9) sent by (simp add: sent_since_def)
  show thesis
    by (rule that [OF C])
      (use A(3-8) D fl(4) d S new nofin len in
        \<open>simp_all add: settled_def empty_buffers_def ack_segment_def ack_reply_def\<close>)
qed

section \<open>The acknowledgement of our FIN\<close>

lemma fin_acked:
  assumes st: "connection_state c = ConnectionState.Established Fin Open True ca"
    and s: "empty_buffers c" "\<not> rx_fin (rx_buf c)" "unack (tx_buf c) \<noteq> tx_next (tx_buf c)"
    and fl: "re_tx (tx_buf c) = [flying]" "seqn_after flying = tx_next (tx_buf c)"
    and seg: "seg = ack_reply d" "seqn seg = ackd (rx_buf c)" "ackn seg = tx_next (tx_buf c)"
  obtains c' where "on_segment E seg c = Some c'"
    and "connection_state c' = ConnectionState.Established ChannelState.Closed Open True ca"
    and "settled c'" and "rx_buf c' = rx_buf c" and "tx_next (tx_buf c') = tx_next (tx_buf c)"
    and "last_sent (tx_buf c') = Some (tx_next (tx_buf c), ackd (rx_buf c), curr_window (rx_buf c))"
proof -
  let ?c0 = "c\<lparr>tx_buf := (tx_buf c)\<lparr>tx_window := min (window seg) (congestion_window c)\<rparr>\<rparr>"
  have S: "tx_stream c = []" "rx_stream (rx_buf c) = []" "rx_window (rx_buf c) = INITIAL_WINDOW_SIZE"
    "dup_ack_count c = 0" "congestion_window c = INITIAL_WINDOW_SIZE"
    using s(1) by (simp_all add: empty_buffers_def)
  have f: "flags_contains (flags seg) ACK" "\<not> flags_contains (flags seg) RST"
    "\<not> flags_contains (flags seg) SYN" "\<not> flags_contains (flags seg) FIN" and d: "data seg = []"
    and len: "seg_len seg = 0" "seq_size seg = 0"
    by (simp_all add: seg(1)) (simp_all add: ack_reply_def flag_simps)
  have acc: "check_segment_seq_ok c seg"
    using S s(2) seg(2) len by (intro in_order_accepted) simp_all
  obtain c1 where N: "on_new_ack E seg ?c0 = Some c1" "connection_state c1 = connection_state ?c0"
    "rx_buf c1 = rx_buf ?c0" "tx_buf c1 = (tx_buf ?c0)\<lparr>re_tx := [], unack := ackn seg,
           tx_window := min (window seg) INITIAL_WINDOW_SIZE\<rparr>"
    "dup_ack_count c1 = 0" "congestion_window c1 = INITIAL_WINDOW_SIZE"
    by (rule on_new_ack_all [of ?c0 flying seg E]) (use fl seg(3) d S in simp_all)
  let ?s = "ConnectionState.Established ChannelState.Closed Open True ca"
  let ?c2 = "enter_state E ?s c1"
  have "set_state E ?s c1 = Some ?c2"
    using N(2) st validate_Established_iff [of Fin Open True ca ChannelState.Closed Open True ca]
    by (cases "debug_assertions E") (auto simp: set_state_not_closing)
  then have F: "on_ack_of_fin E seg c1 = Some ?c2"
    using N(2,4) st S(1) seg(3) by (simp add: on_ack_of_fin_def is_empty_contents)
  obtain c' q where A: "send_ack E ?c2 = Some c'" "connection_state c' = connection_state ?c2"
    "rx_buf c' = rx_buf ?c2" "congestion_window c' = congestion_window ?c2"
    "dup_ack_count c' = dup_ack_count ?c2" "tx_buf c' = (tx_buf ?c2)\<lparr>tx_queue := q, last_sent :=
           Some (tx_next (tx_buf ?c2), ackd (rx_buf ?c2), curr_window (rx_buf ?c2))\<rparr>" "contents q = []"
    by (rule send_ack_nothing [of ?c2 E]) (use N(4) S(1) in \<open>simp_all add: can_ack_def ack_fin_def\<close>)
  have W: "rx_write (debug_assertions E) seg (rx_buf c) = Some (rx_buf c)"
    using len f(4) d by (cases "rx_buf c") (simp add: rx_write_cases)
  have "?c2\<lparr>rx_buf := rx_buf c\<rparr> = ?c2" by (rule Connection.equality) (simp_all add: N(3))
  then have "send_ack E (?c2\<lparr>rx_buf := rx_buf c\<rparr>) = Some c'" using A(1) by (simp only:)
  then have "on_ack E seg ?c0 = Some (True, c')"
    using st seg(2,3) s(3) N(1,3) F W by (simp add: on_ack_def store_segment_def)
  then have C: "on_segment E seg c = Some c'"
    using on_segment_data [OF st acc f(1-3), of E] f(4) by (simp add: Let_def)
  show thesis
    by (rule that [OF C]) (use A(2-7) N(3-6) S seg(3) in \<open>simp_all add: settled_def empty_buffers_def\<close>)
qed

text \<open>The acknowledgement that ends the passive close.\<close>

lemma last_ack_closes:
  assumes st: "connection_state c = ConnectionState.Established Fin ChannelState.Closed True False"
    and s: "empty_buffers c" "rx_fin (rx_buf c)" "unack (tx_buf c) \<noteq> tx_next (tx_buf c)"
    and fl: "re_tx (tx_buf c) = [flying]" "seqn_after flying = tx_next (tx_buf c)"
    and seg: "seg = ack_reply d" "seqn seg = ackd (rx_buf c)" "ackn seg = tx_next (tx_buf c)" "seqn seg \<noteq> 0"
  obtains c' where "on_segment E seg c = Some c'" and "connection_state c' = ConnectionState.Closed"
proof -
  let ?c0 = "c\<lparr>tx_buf := (tx_buf c)\<lparr>tx_window := min (window seg) (congestion_window c)\<rparr>\<rparr>"
  have S: "tx_stream c = []" "dup_ack_count c = 0" "congestion_window c = INITIAL_WINDOW_SIZE"
    using s(1) by (simp_all add: empty_buffers_def)
  have f: "flags_contains (flags seg) ACK" "\<not> flags_contains (flags seg) RST"
    "\<not> flags_contains (flags seg) SYN" and d: "data seg = []" and len: "seq_size seg = 0"
    by (simp_all add: seg(1)) (simp_all add: ack_reply_def flag_simps)
  have "unat (curr_window (rx_buf c)) = 0" using s(2) by (simp add: unat_curr_window)
  then have acc: "check_segment_seq_ok c seg"
    using seg(2) len by (simp add: check_segment_seq_ok_def unat_eq_zero)
  obtain c1 where N: "on_new_ack E seg ?c0 = Some c1" "connection_state c1 = connection_state ?c0"
    "tx_buf c1 = (tx_buf ?c0)\<lparr>re_tx := [], unack := ackn seg,
           tx_window := min (window seg) INITIAL_WINDOW_SIZE\<rparr>"
    by (rule on_new_ack_all [of ?c0 flying seg E]) (use fl seg(3) d S in simp_all)
  let ?s = "ConnectionState.Established ChannelState.Closed ChannelState.Closed True False"
  let ?c2 = "clear E (enter_state E ?s c1)"
  have "set_state E ?s c1 = Some ?c2"
    using N(2) st validate_Established_iff [of Fin ChannelState.Closed True False
        ChannelState.Closed ChannelState.Closed True False]
    by (cases "debug_assertions E") (auto simp: set_state_closing)
  then have F: "on_ack_of_fin E seg c1 = Some ?c2"
    using N(2,3) st S(1) seg(3) by (simp add: on_ack_of_fin_def is_empty_contents)
  obtain c' where K: "store_segment E seg ?c2 = Some (False, c')" "connection_state c' = ConnectionState.Closed"
    using seg(4) by (cases "seqn_lt (seqn seg) 0") (simp_all add: store_segment_def)
  then have "on_ack E seg ?c0 = Some (False, c')"
    using st seg(3) s(3) N(1) F by (simp add: on_ack_def)
  then have "on_segment E seg c = Some c'"
    using on_segment_data [OF st acc f, of E] by (simp add: Let_def)
  then show thesis using K(2) by (rule that)
qed

section \<open>The end of the stream\<close>

lemma read_end:
  assumes st: "connection_state c = ConnectionState.Established t Fin cc ca" "cc \<longrightarrow> t \<noteq> Open"
    and rx: "rx_stream (rx_buf c) = []" "rx_fin (rx_buf c)" "\<not> rx_done (rx_buf c)"
  obtains rx c' where "call_recv E [0] c = Some (Ok 0, [0], c')"
    and "set_state E (ConnectionState.Established t ChannelState.Closed cc ca) (c\<lparr>rx_buf := rx\<rparr>) = Some c'"
    and "rx_stream rx = []" and "rx_fin rx" and "ackd rx = ackd (rx_buf c)" and "rx_window rx = rx_window (rx_buf c)"
proof -
  have "rx_read_bytes 1 (rx_buf c) \<noteq> None" using rx by (simp add: rx_read_bytes_eq_None)
  then obtain bs r where R: "rx_read_bytes 1 (rx_buf c) = Some (bs, r)" by auto
  note D = rx_read_bytesD [OF R]
  let ?s = "ConnectionState.Established t ChannelState.Closed cc ca"
  have "debug_validate_transition (debug_assertions E) (connection_state c) ?s \<noteq> None"
    using st by (cases "debug_assertions E") (auto simp: validate_Established_iff simp del: not_None_eq)
  then have "set_state E ?s (c\<lparr>rx_buf := r\<rparr>) \<noteq> None"
    by (cases "closing ?s") (auto simp: set_state_not_closing set_state_closing)
  then obtain c' where S: "set_state E ?s (c\<lparr>rx_buf := r\<rparr>) = Some c'" by auto
  have "call_recv E [0] c = Some (Ok 0, [0], c')"
    using R S D(2) rx(1) by (simp add: call_recv_def st(1) Let_def)
  from that [OF this S] D rx show thesis by simp
qed

section \<open>The close of a session\<close>

lemma linked_settled: "linked a b \<Longrightarrow> settled a" "linked a b \<Longrightarrow> settled b"
  by (auto simp: linked_def settled_def empty_buffers_def open_idle_def may_send_def)

text \<open>Between the two closes: the client has sent everything, the server can still send.\<close>

definition half_closed :: "('a, 't) Connection \<Rightarrow> ('b, 'u) Connection \<Rightarrow> bool" where
  "half_closed a b \<longleftrightarrow>
     connection_state a = ConnectionState.Established ChannelState.Closed Open True True \<and>
     settled a \<and> \<not> rx_fin (rx_buf a) \<and> \<not> rx_done (rx_buf a) \<and>
     (\<exists>q w. last_sent (tx_buf a) = Some (q, ackd (rx_buf a), w)) \<and>
     connection_state b = ConnectionState.Established Open ChannelState.Closed False False \<and>
     settled b \<and> rx_fin (rx_buf b) \<and> 0 < tx_window (tx_buf b) \<and>
     ackd (rx_buf b) = tx_next (tx_buf a) \<and> ackd (rx_buf a) = tx_next (tx_buf b)"

lemma seqn_after_fin [simp]: "seqn_after (fin_segment c) = tx_next (tx_buf c) + 1"
  by (simp add: seqn_after_def wrapping_add_def) (simp add: fin_segment_def)

lemma client_closes:
  fixes Ea :: "('a, 't) env" and Eb :: "('b, 'u) env"
  assumes L: "linked a b" and free: "may_close a" "may_close b"
  obtains a' b' where "close_client Ea Eb (a, b) = Some (Ok 0, a', b')" and "half_closed a' b'"
    and "tx_next (tx_buf a') = tx_next (tx_buf a) + 1" and "may_close b'"
proof -
  have a: "connection_state a = ConnectionState.Established Open Open False False" "\<not> rx_fin (rx_buf a)"
    "\<not> rx_done (rx_buf a)" "0 < tx_window (tx_buf a)" "curr_window (rx_buf a) = INITIAL_WINDOW_SIZE"
    and b: "connection_state b = ConnectionState.Established Open Open False False" "\<not> rx_fin (rx_buf b)"
    "\<not> rx_done (rx_buf b)" "\<not> tx_fin_marked b"
    and sync: "ackd (rx_buf b) = tx_next (tx_buf a)" "ackd (rx_buf a) = tx_next (tx_buf b)"
    using L by (auto simp: linked_def open_idle_def may_send_def FULLY_OPEN_def word_less_nat_alt
        word_unat_eq_iff unat_curr_window)
  obtain q w where sent: "last_sent (tx_buf b) = Some (q, ackd (rx_buf b), w)"
    using L by (auto simp: linked_def)
  note set = linked_settled [OF L]
  obtain r1 a1 where A1: "call_close Ea a = Some (r1, a1)"
    "connection_state a1 = ConnectionState.Established Fin Open True (Open = Open)" "empty_buffers a1"
    "rx_buf a1 = rx_buf a" "tx_fin_marked a1" "unack (tx_buf a1) = tx_next (tx_buf a)"
    "tx_next (tx_buf a1) = tx_next (tx_buf a) + 1" "re_tx (tx_buf a1) = [fin_segment a]"
    "sent_since (user_data a) (user_data a1) = Some (fin_segment a)"
    by (rule close_sends_fin [OF a(1) set(1) free(1) a(4), of Ea])
  obtain b1 where B1: "on_segment Eb (fin_segment a) b = Some b1"
    "connection_state b1 = ConnectionState.Established Open Fin False False" "settled b1"
    "rx_fin (rx_buf b1)" "rx_done (rx_buf b1) = rx_done (rx_buf b)"
    "tx_next (tx_buf b1) = tx_next (tx_buf b)" "ackd (rx_buf b1) = ackd (rx_buf b) + 1"
    "tx_window (tx_buf b1) = min (window (fin_segment a)) INITIAL_WINDOW_SIZE" "sent_since (user_data b) (user_data b1) = Some (ack_reply b1)"
    by (rule fin_arrives [OF b(1) _ _ set(2) b(2) _ sent refl, of a Eb])
      (use b sync in \<open>simp_all add: fin_segment_def\<close>)
  obtain a2 where A2: "on_segment Ea (ack_reply b1) a1 = Some a2"
    "connection_state a2 = ConnectionState.Established ChannelState.Closed Open True (Open = Open)"
    "settled a2" "rx_buf a2 = rx_buf a1" "tx_next (tx_buf a2) = tx_next (tx_buf a1)"
    "last_sent (tx_buf a2) = Some (tx_next (tx_buf a1), ackd (rx_buf a1), curr_window (rx_buf a1))"
    by (rule fin_acked [OF A1(2,3) _ _ A1(8) _ refl, of b1 Ea])
      (use a A1(4,6,7) B1(6,7) sync in \<open>simp_all add: ack_reply_def\<close>)
  let ?s = "ConnectionState.Established Open ChannelState.Closed False False"
  obtain rx b2 where B2: "call_recv Eb [0] b1 = Some (Ok 0, [0], b2)"
    "set_state Eb ?s (b1\<lparr>rx_buf := rx\<rparr>) = Some b2"
    "rx_stream rx = []" "rx_fin rx" "ackd rx = ackd (rx_buf b1)" "rx_window rx = rx_window (rx_buf b1)"
    by (rule read_end [OF B1(2), of Eb]) (use b B1(3-5) in \<open>simp_all add: settled_def empty_buffers_def\<close>)
  have b2: "b2 = enter_state Eb ?s (b1\<lparr>rx_buf := rx\<rparr>)"
    using B2(2) by (simp add: set_state_not_closing split: if_splits)
  have "half_closed a2 b2"
    using a A1(4,7) A2(2-6) B1(3,6-8) B2(3-6) sync
    by (simp add: half_closed_def b2 settled_def empty_buffers_def fin_segment_def INITIAL_WINDOW_SIZE_def)
  moreover have "may_close b2"
    using may_close_evolves [OF evolves_on_segment [OF B1(1)] free(2)] accounted_call_recv [OF B2(1)]
    by (simp add: may_close_evolves)
  moreover have "close_client Ea Eb (a, b) = Some (Ok 0, a2, b2)"
    using A1(1,9) B1(1,9) A2(1) B2(1) by (simp add: close_client_def)
  ultimately show thesis using A1(7) A2(5) that by simp
qed

lemma server_closes:
  fixes Ea :: "('a, 't) env" and Eb :: "('b, 'u) env"
  assumes H: "half_closed a b" and free: "may_close b" and nz: "tx_next (tx_buf a) \<noteq> 0"
  obtains a' b' where "close_server Ea Eb (a, b) = Some (Ok 0, a', b')"
    and "connection_state a' = TimeWait" and "connection_state b' = ConnectionState.Closed"
proof -
  have a: "connection_state a = ConnectionState.Established ChannelState.Closed Open True True" "settled a"
    "\<not> rx_fin (rx_buf a)" "\<not> rx_done (rx_buf a)"
    and b: "connection_state b = ConnectionState.Established Open ChannelState.Closed False False" "settled b"
    "rx_fin (rx_buf b)" "0 < tx_window (tx_buf b)"
    and sync: "ackd (rx_buf b) = tx_next (tx_buf a)" "ackd (rx_buf a) = tx_next (tx_buf b)"
    using H by (simp_all add: half_closed_def)
  obtain q w where sent: "last_sent (tx_buf a) = Some (q, ackd (rx_buf a), w)"
    using H by (auto simp: half_closed_def)
  obtain r b1 where B: "call_close Eb b = Some (r, b1)"
    "connection_state b1 = ConnectionState.Established Fin ChannelState.Closed True (ChannelState.Closed = Open)"
    "empty_buffers b1" "rx_buf b1 = rx_buf b" "tx_fin_marked b1" "unack (tx_buf b1) = tx_next (tx_buf b)"
    "tx_next (tx_buf b1) = tx_next (tx_buf b) + 1" "re_tx (tx_buf b1) = [fin_segment b]"
    "sent_since (user_data b) (user_data b1) = Some (fin_segment b)"
    by (rule close_sends_fin [OF b(1,2) free b(4), of Eb])
  obtain a1 where A: "on_segment Ea (fin_segment b) a = Some a1"
    "connection_state a1 = ConnectionState.Established ChannelState.Closed Fin True True" "settled a1"
    "rx_fin (rx_buf a1)" "rx_done (rx_buf a1) = rx_done (rx_buf a)"
    "tx_next (tx_buf a1) = tx_next (tx_buf a)" "ackd (rx_buf a1) = ackd (rx_buf a) + 1"
    "sent_since (user_data a) (user_data a1) = Some (ack_reply a1)"
    by (rule fin_arrives [OF a(1) _ _ a(2,3) _ sent refl, of b Ea])
      (use sync in \<open>simp_all add: fin_segment_def\<close>)
  obtain b2 where B2: "on_segment Eb (ack_reply a1) b1 = Some b2" "connection_state b2 = ConnectionState.Closed"
    by (rule last_ack_closes [OF _ B(3) _ _ B(8) _ refl, of a1 Eb])
      (use B(2,4,6,7) A(6,7) b(3) sync nz in \<open>simp_all add: ack_reply_def\<close>)
  obtain rx a2 where A2: "call_recv Ea [0] a1 = Some (Ok 0, [0], a2)"
    "set_state Ea (ConnectionState.Established ChannelState.Closed ChannelState.Closed True True)
       (a1\<lparr>rx_buf := rx\<rparr>) = Some a2"
    by (rule read_end [OF A(2), of Ea])
      (use a A(3-5) in \<open>simp_all add: settled_def empty_buffers_def\<close>)
  have "connection_state a2 = TimeWait"
    using A2(2) by (auto simp: set_state_closing split: if_splits)
  moreover have "close_server Ea Eb (a, b) = Some (Ok 0, a2, b2)"
    using B(1,9) A(1,8) B2(1) A2(1) by (simp add: close_server_def)
  ultimately show thesis using B2(2) that by blast
qed

section \<open>Property\<close>

definition full_session ::
  "('a, 't::linorder) env \<Rightarrow> ('b, 'u) env \<Rightarrow> (('b, 'u) ListenSocket \<Rightarrow> ('b, 'u) history) \<Rightarrow> 'b
     \<Rightarrow> (u8 list \<times> nat) list \<Rightarrow> ('a, 't) Connection \<Rightarrow> ('b, 'u) ListenSocket
     \<Rightarrow> (u8 list \<times> (Error + nat) \<times> (Error + nat) \<times> ('a, 't) Connection \<times> ('b, 'u) Connection) option" where
  "full_session Ea Eb make_user_data addr chunks client server = do {
     s \<leftarrow> open_session Ea Eb make_user_data addr client server;
     (out, s) \<leftarrow> send_chunks Ea Eb chunks s;
     (read_b, s) \<leftarrow> close_client Ea Eb s;
     (read_a, a, b) \<leftarrow> close_server Ea Eb s;
     Some (out, read_a, read_b, a, b)
   }"

text \<open>
  C11: a session ends. After any chunks have been delivered, the client closes, the server's
  reader is told the end of the stream and closes too, the client's reader is told the end: both
  reads return 0 bytes, the client is in TIME-WAIT and the server is closed. No call and no
  segment panics on the way, whatever the builds, the user methods and the hash tables do. (The
  number of the last acknowledgement must not be 0: see
  \<open>last_ack_may_send_a_spurious_reply\<close>.)
\<close>

theorem session_ends_on_both_sides:
  fixes Ea :: "('a, 't::linorder) env" and Eb :: "('b, 'u) env"
  assumes "listen_open s" and "listen_queue s = []" and "0 < backlog s"
    and "\<forall>(bytes, k) \<in> set chunks. bytes \<noteq> [] \<and> length bytes \<le> MAX_SEGMENT_SIZE \<and> k < 63"
    and "new_seqn Ea h + as_u32 (length (concat (map fst chunks))) + 2 \<noteq> 0"
  shows "\<exists>a b. full_session Ea Eb f addr chunks (Connection_new peer h) s
      = Some (concat (map fst chunks), Ok 0, Ok 0, a, b) \<and>
    connection_state a = TimeWait \<and> connection_state b = ConnectionState.Closed"
proof -
  have "ready_server s" using assms(1-3) by (simp add: ready_server_def)
  then obtain a b where O: "open_session Ea Eb f addr (Connection_new peer h) s = Some (a, b)"
    and L: "linked a b" "tx_next (tx_buf a) = new_seqn Ea h + 1" "may_close a" "may_close b"
    by (rule session_opens)
  from chunks_arrive [OF L(1) assms(4), of Ea Eb] obtain a1 b1 where
    C: "send_chunks Ea Eb chunks (a, b) = Some (concat (map fst chunks), a1, b1)" "linked a1 b1"
    "tx_next (tx_buf a1) = tx_next (tx_buf a) + as_u32 (length (concat (map fst chunks)))"
    "evolves Ea a a1" "evolves Eb b b1"
    by blast
  obtain a2 b2 where D: "close_client Ea Eb (a1, b1) = Some (Ok 0, a2, b2)" "half_closed a2 b2"
    "tx_next (tx_buf a2) = tx_next (tx_buf a1) + 1" "may_close b2"
    by (rule client_closes [OF C(2) may_close_evolves [OF C(4) L(3)] may_close_evolves [OF C(5) L(4)]])
  have "tx_next (tx_buf a2) \<noteq> 0"
    using assms(5) by (simp only: D(3) C(3) L(2)) (simp add: algebra_simps)
  then obtain a3 b3 where "close_server Ea Eb (a2, b2) = Some (Ok 0, a3, b3)"
    "connection_state a3 = TimeWait" "connection_state b3 = ConnectionState.Closed"
    by (rule server_closes [OF D(2,4)])
  then show ?thesis using O C(1) D(1) by (simp add: full_session_def)
qed

theorem session_ends_on_both_sides_witness:
  "\<exists>a b. full_session (demo_env True) (demo_env True) (\<lambda>_. []) 7 [([1, 2, 3], 0), ([4], 2)]
      (Connection_new 9 []) (call_listen 1 []) = Some ([1, 2, 3, 4], Ok 0, Ok 0, a, b) \<and>
    connection_state a = TimeWait \<and> connection_state b = ConnectionState.Closed"
  using session_ends_on_both_sides [of "call_listen 1 []" "[([1, 2, 3], 0), ([4], 2)]" "demo_env True" "[]"
      "demo_env True" "\<lambda>_. []" 7 9]
  by (simp add: call_listen_def MAX_SEGMENT_SIZE_def)

end
