(* ===== verification/Tcp_Reader.thy ===== *)
theory Tcp_Reader
  imports Tcp_Run
begin

text \<open>
  A reader that calls \<open>recv\<close> until the end of the stream, after the peer's FIN: it gets the
  whole stream in a bounded number of calls.
\<close>

section \<open>Repeated reads\<close>

text \<open>\<open>k\<close> calls to \<open>recv\<close> with a buffer of \<open>n\<close> bytes: the bytes read and the connection.\<close>

fun recv_times ::
  "('a, 't) env \<Rightarrow> nat \<Rightarrow> nat \<Rightarrow> ('a, 't) Connection \<Rightarrow> (u8 list \<times> ('a, 't) Connection) option" where
  "recv_times E n 0 c = Some ([], c)"
| "recv_times E n (Suc k) c = do {
     (bs, c) \<leftarrow> recv_times E n k c;
     (r, out, c) \<leftarrow> call_recv E (replicate n 0) c;
     case r of Inl _ \<Rightarrow> None | Inr m \<Rightarrow> Some (bs @ take m out, c)
   }"

text \<open>A read of a full buffer, and the last, short one.\<close>

lemma rx_read_bytes_Some:
  assumes "0 < limit" and "\<not> rx_done rx" and "limit \<le> length (rx_stream rx) \<or> rx_fin rx"
  obtains rx' where "rx_read_bytes limit rx = Some (take limit (rx_stream rx), rx')"
proof -
  have "rx_read_bytes limit rx \<noteq> None" using assms by (auto simp: rx_read_bytes_eq_None)
  then obtain bs rx' where r: "rx_read_bytes limit rx = Some (bs, rx')" by auto
  from rx_read_bytesD(2) [OF r] r that show thesis by simp
qed

lemma call_recv_full:
  assumes st: "connection_state c = ConnectionState.Established t Fin cc ca" and n: "0 < n"
    and nd: "\<not> rx_done (rx_buf c)" and len: "n \<le> length (rx_stream (rx_buf c))"
  obtains rx' where
    "call_recv E (replicate n 0) c = Some (Ok n, take n (rx_stream (rx_buf c)), c\<lparr>rx_buf := rx'\<rparr>)"
    "rx_stream rx' = drop n (rx_stream (rx_buf c))" "rx_fin rx' = rx_fin (rx_buf c)" "\<not> rx_done rx'"
proof -
  obtain rx' where r: "rx_read_bytes n (rx_buf c) = Some (take n (rx_stream (rx_buf c)), rx')"
    using rx_read_bytes_Some [of n "rx_buf c"] n nd len by blast
  note R = rx_read_bytesD [OF r]
  show thesis
    by (rule that [of rx'])
      (use R len in \<open>simp_all add: call_recv_def st r Let_def\<close>)
qed

lemma call_recv_last:
  assumes st: "connection_state c = ConnectionState.Established t Fin cc ca" and f: "rx_fin (rx_buf c)"
    and nd: "\<not> rx_done (rx_buf c)" and len: "length (rx_stream (rx_buf c)) < n"
    and v: "\<not> (debug_assertions E \<and> cc \<and> t = Open)"
  obtains out c' where
    "call_recv E (replicate n 0) c = Some (Ok (length (rx_stream (rx_buf c))), out, c')"
    "take (length (rx_stream (rx_buf c))) out = rx_stream (rx_buf c)"
    "state_rx (connection_state c') = ChannelState.Closed"
proof -
  let ?s = "rx_stream (rx_buf c)"
  obtain rx' where r: "rx_read_bytes n (rx_buf c) = Some (?s, rx')"
    using rx_read_bytes_Some [of n "rx_buf c"] nd len f by auto
  let ?c0 = "c\<lparr>rx_buf := rx'\<rparr>" and ?closed = "ConnectionState.Established t ChannelState.Closed cc ca"
  have "debug_validate_transition (debug_assertions E) (connection_state ?c0) ?closed \<noteq> None"
    using v st by (cases "debug_assertions E") (auto simp: validate_Established_iff simp del: not_None_eq)
  then have "set_state E ?closed ?c0 \<noteq> None"
    by (cases "closing ?closed") (auto simp: set_state_not_closing set_state_closing)
  then obtain c' where S: "set_state E ?closed ?c0 = Some c'" by auto
  then have "state_rx (connection_state c') = ChannelState.Closed"
    by (rule set_state_cases) (auto simp: state_rx_def)
  then show thesis
    by (intro that [of "?s @ replicate (n - length ?s) 0" c'])
      (use S len in \<open>simp_all add: call_recv_def st r Let_def\<close>)
qed

lemma recv_times_full:
  assumes st: "connection_state c = ConnectionState.Established t Fin cc ca" and n: "0 < n"
    and nd: "\<not> rx_done (rx_buf c)" and len: "k * n \<le> length (rx_stream (rx_buf c))"
  shows "\<exists>rx'. recv_times E n k c = Some (take (k * n) (rx_stream (rx_buf c)), c\<lparr>rx_buf := rx'\<rparr>) \<and>
    rx_stream rx' = drop (k * n) (rx_stream (rx_buf c)) \<and> rx_fin rx' = rx_fin (rx_buf c) \<and> \<not> rx_done rx'"
  using len
proof (induction k)
  case 0
  then show ?case using nd by (intro exI [of _ "rx_buf c"]) simp
next
  case (Suc k)
  then obtain rx1 where IH: "recv_times E n k c = Some (take (k * n) (rx_stream (rx_buf c)), c\<lparr>rx_buf := rx1\<rparr>)"
    "rx_stream rx1 = drop (k * n) (rx_stream (rx_buf c))" "rx_fin rx1 = rx_fin (rx_buf c)" "\<not> rx_done rx1"
    by auto
  obtain rx2 where "call_recv E (replicate n 0) (c\<lparr>rx_buf := rx1\<rparr>)
      = Some (Ok n, take n (rx_stream rx1), c\<lparr>rx_buf := rx2\<rparr>)"
    "rx_stream rx2 = drop n (rx_stream rx1)" "rx_fin rx2 = rx_fin rx1" "\<not> rx_done rx2"
    by (rule call_recv_full [of "c\<lparr>rx_buf := rx1\<rparr>" t cc ca n E]) (use st n IH Suc.prems in simp_all)
  with IH show ?case
    by (intro exI [of _ rx2]) (simp add: take_add [symmetric] add.commute)
qed

section \<open>Property\<close>

text \<open>
  C14: a reader's loop ends. On a reachable connection whose peer has sent its FIN, a reader that
  calls \<open>recv\<close> with a buffer of \<open>n > 0\<close> bytes gets a full buffer each time as long as there
  is one, and after exactly \<open>length div n + 1\<close> calls it has the whole stream and the receive
  channel is closed. No call suspends or panics (in a debug build, unless close was called while
  our own FIN was blocked by the peer's window).
\<close>

theorem reading_ends_with_the_stream:
  assumes "reachable E c" and "connection_state c = ConnectionState.Established t Fin cc ca"
    and "rx_fin (rx_buf c)" and "0 < n" and "\<not> (debug_assertions E \<and> cc \<and> t = Open)"
  shows "(\<exists>c'. recv_times E n (length (rx_stream (rx_buf c)) div n + 1) c = Some (rx_stream (rx_buf c), c') \<and>
      state_rx (connection_state c') = ChannelState.Closed) \<and>
    (\<forall>k. k \<le> length (rx_stream (rx_buf c)) div n \<longrightarrow>
      (\<exists>c'. recv_times E n k c = Some (take (k * n) (rx_stream (rx_buf c)), c') \<and>
         state_rx (connection_state c') = Fin))"
proof
  let ?s = "rx_stream (rx_buf c)"
  have nd: "\<not> rx_done (rx_buf c)"
    using reachable_wf [OF assms(1)] assms(2) by (simp add: conn_ok_def rx_ok_def)
  have le: "k * n \<le> length ?s" if "k \<le> length ?s div n" for k
    using that assms(4) by (simp add: less_eq_div_iff_mult_less_eq)
  show "\<forall>k. k \<le> length ?s div n \<longrightarrow>
      (\<exists>c'. recv_times E n k c = Some (take (k * n) ?s, c') \<and> state_rx (connection_state c') = Fin)"
    using recv_times_full [OF assms(2,4) nd le] assms(2) by fastforce
  let ?k = "length ?s div n"
  obtain rx' where F: "recv_times E n ?k c = Some (take (?k * n) ?s, c\<lparr>rx_buf := rx'\<rparr>)"
    "rx_stream rx' = drop (?k * n) ?s" "rx_fin rx'" "\<not> rx_done rx'"
    using recv_times_full [OF assms(2,4) nd le, of ?k] assms(3) by auto
  have short: "length (rx_stream rx') < n"
    using F(2) assms(4) by (simp add: minus_div_mult_eq_mod)
  obtain out c' where L: "call_recv E (replicate n 0) (c\<lparr>rx_buf := rx'\<rparr>)
      = Some (Ok (length (rx_stream rx')), out, c')"
    "take (length (rx_stream rx')) out = rx_stream rx'"
    "state_rx (connection_state c') = ChannelState.Closed"
    by (rule call_recv_last [of "c\<lparr>rx_buf := rx'\<rparr>" t cc ca n E])
      (use assms F short in simp_all)
  have "recv_times E n (?k + 1) c = Some (take (?k * n) ?s @ rx_stream rx', c')"
    using F(1) L by simp
  moreover have "take (?k * n) ?s @ rx_stream rx' = ?s"
    by (simp only: F(2) append_take_drop_id)
  ultimately show "\<exists>c'. recv_times E n (?k + 1) c = Some (?s, c') \<and>
      state_rx (connection_state c') = ChannelState.Closed"
    using L(3) by metis
qed

text \<open>Three bytes and a FIN arrive, then a reader with a buffer of two bytes takes them.\<close>

theorem reading_ends_with_the_stream_witness:
  "\<exists>c c'. reachable (demo_env True) c \<and>
     recv_times (demo_env True) 2 2 c = Some ([1, 2, 3], c') \<and>
     state_rx (connection_state c') = ChannelState.Closed"
proof -
  let ?fin = "\<lparr>seqn = 2, ackn = 1001, window = 4096, flags = flags_or FIN ACK, data = []\<rparr>"
  let ?data = "\<lparr>seqn = 0xFFFFFFFF, ackn = 1001, window = 4096, flags = ACK, data = [1, 2, 3]\<rparr>"
  obtain c1 where c1: "conn_step (demo_env True) (Segment ?data) demo_established = Some (Ok 0, c1)"
    "re_tx (tx_buf c1) = []" and c1_def: "c1 = snd (the (conn_step (demo_env True) (Segment ?data) demo_established))"
    by (simp add: demo_established_def run_defs)
  obtain c2 where c2: "conn_step (demo_env True) (Segment ?fin) c1 = Some (Ok 0, c2)"
    "connection_state c2 = ConnectionState.Established Open Fin False False"
    "rx_fin (rx_buf c2)" "rx_stream (rx_buf c2) = [1, 2, 3]"
    unfolding c1_def by (simp add: demo_established_def run_defs contents_def)
  have "reachable (demo_env True) c1"
    by (rule reachable.step [OF demo_reachable(2) _ c1(1)])
      (simp add: sound_op_def not_stray_def roomy_def demo_established_def MAX_SEGMENT_SIZE_def seg_len_def flag_simps)
  then have r: "reachable (demo_env True) c2"
    by (rule reachable.step [OF _ _ c2(1)])
      (simp add: sound_op_def not_stray_def roomy_def c1(2) MAX_SEGMENT_SIZE_def seg_len_def flag_simps)
  have k: "length (rx_stream (rx_buf c2)) div 2 + 1 = 2" by (simp add: c2(4))
  have "\<exists>c'. recv_times (demo_env True) 2 (length (rx_stream (rx_buf c2)) div 2 + 1) c2
      = Some (rx_stream (rx_buf c2), c') \<and> state_rx (connection_state c') = ChannelState.Closed"
    by (rule reading_ends_with_the_stream [OF r c2(2,3), THEN conjunct1]) simp_all
  then show ?thesis using r unfolding k unfolding c2(4) by blast
qed

end
