(* ===== verification/Tcp_Resend.thy ===== *)
theory Tcp_Resend
  imports Tcp_Run
begin

text \<open>
  Retransmission: while a segment is unacknowledged, every expiry of the retransmission timer
  sends it again and doubles the wait for the next one.
\<close>

section \<open>Clock ticks\<close>

text \<open>A run of clock ticks, with the number of ticks at which the retransmission timer expired.\<close>

fun ticks :: "('a, 't::linorder) env \<Rightarrow> 't list \<Rightarrow> ('a, 't) Connection \<Rightarrow> (nat \<times> ('a, 't) Connection) option" where
  "ticks E [] c = Some (0, c)"
| "ticks E (t # ts) c = do {
     c' \<leftarrow> on_time_tick E t c;
     (n, c'') \<leftarrow> ticks E ts c';
     Some (if expired (timer_re_tx (timers c)) t then Suc n else n, c'')
   }"

text \<open>The timer was armed last, for the round-trip timeout and the back-off from then on.\<close>

definition backed_off :: "('a, 't) env \<Rightarrow> ('a, 't) Connection \<Rightarrow> bool" where
  "backed_off E c \<longleftrightarrow> (\<exists>h deadline. user_data c = h @ [AddTimeout deadline] \<and>
     timer_re_tx (timers c) = Some deadline \<and>
     deadline = add_time E (now E h) (rto (timings c) + from_secs (unat (exp_backoff c))))"

text \<open>A connection that waits for the acknowledgement of a segment has only this timer.\<close>

lemma waiting_timers:
  assumes "conn_wf c" and "re_tx (tx_buf c) = seg # segs"
  shows "connection_state c \<noteq> TimeWait" "\<not> quiet (connection_state c)" "timer_re_tx (timers c) \<noteq> None"
    "timer_timewait (timers c) = None" "timer_usertime (timers c) = None"
  using assms by (cases "connection_state c"; auto simp: conn_ok_def tx_ok_def timers_ok_def)+

lemma tick_before_deadline:
  assumes "conn_wf c" and "re_tx (tx_buf c) = seg # segs" and "\<not> expired (timer_re_tx (timers c)) t"
  shows "on_time_tick E t c = Some c"
  using assms(3) waiting_timers(4,5) [OF assms(1,2)] by (simp add: on_time_tick_def expired_def)

lemma tick_resends:
  assumes ok: "conn_wf c" and re: "re_tx (tx_buf c) = seg # segs" and b: "unat (exp_backoff c) < 2 ^ 62"
    and e: "expired (timer_re_tx (timers c)) t"
  obtains c' where "on_time_tick E t c = Some c'" and "tx_buf c' = tx_buf c"
    and "exp_backoff c' = exp_backoff c * 2" and "backed_off E c'" and "events c' = events c"
    and "connection_state c' = connection_state c" and "timings c' = timings c" and "remote c' = remote c"
    and "sent_segments (user_data c') = sent_segments (user_data c) @ [(remote c, seg)]"
proof -
  note T = waiting_timers [OF ok re]
  have t: "timings c = Timings_default" using ok by (simp add: conn_ok_def)
  have m: "ovf_mul (debug_assertions E) (exp_backoff c) 2 = Some (exp_backoff c * 2)"
    using b by (simp add: ovf_mul_def)
  have "unat (exp_backoff c * 2) = unat (exp_backoff c) * 2" using b by (simp add: unat_word_ariths)
  with b have d: "duration_add (rto Timings_default) (from_secs (unat (exp_backoff c * 2)))
      = Some (rto Timings_default + from_secs (unat (exp_backoff c * 2)))"
    by (simp add: duration_add_def Timings_default_def)
  let ?c0 = "user_send seg (c\<lparr>timers := (timers c)\<lparr>timer_re_tx := None\<rparr>, exp_backoff := exp_backoff c * 2\<rparr>)"
  let ?c' = "set_timer_re_tx E (rto Timings_default + from_secs (unat (exp_backoff c * 2))) ?c0"
  have S: "on_time_tick E t c = Some ?c'"
    using T e re t m d
    by (cases "connection_state c") (simp_all add: on_time_tick_def on_timer_re_tx_def expired_def Let_def)
  have "backed_off E ?c'"
    by (simp add: backed_off_def t) (simp add: set_timer_re_tx_def Let_def t)
  then show thesis by (intro that [OF S]) (simp_all add: history_simps)
qed

lemma ticks_resend:
  assumes "conn_wf c" and "re_tx (tx_buf c) = seg # segs" and "unat (exp_backoff c) * 2 ^ length ts < 2 ^ 63"
  shows "\<exists>n c'. ticks E ts c = Some (n, c') \<and> conn_wf c' \<and> n \<le> length ts \<and> (n = 0 \<longrightarrow> c' = c) \<and>
    (n \<noteq> 0 \<longrightarrow> backed_off E c') \<and>
    sent_segments (user_data c') = sent_segments (user_data c) @ replicate n (remote c, seg) \<and>
    exp_backoff c' = exp_backoff c * 2 ^ n \<and> tx_buf c' = tx_buf c \<and> events c' = events c \<and>
    connection_state c' = connection_state c \<and> remote c' = remote c"
  using assms
proof (induction ts arbitrary: c)
  case (Cons t ts)
  show ?case
  proof (cases "expired (timer_re_tx (timers c)) t")
    case False
    have "unat (exp_backoff c) * 2 ^ length ts < 2 ^ 63" using Cons.prems(3) by simp
    from Cons.IH [OF Cons.prems(1,2) this] False show ?thesis
      using tick_before_deadline [OF Cons.prems(1,2) False, of E] by auto
  next
    case True
    have "unat (exp_backoff c) * 2 ^ length ts < 2 ^ 62" using Cons.prems(3) by simp
    moreover have "unat (exp_backoff c) \<le> unat (exp_backoff c) * 2 ^ length ts" by simp
    ultimately have b: "unat (exp_backoff c) < 2 ^ 62" by linarith
    obtain c1 where c1: "on_time_tick E t c = Some c1" "tx_buf c1 = tx_buf c" "exp_backoff c1 = exp_backoff c * 2"
      "backed_off E c1" "events c1 = events c" "connection_state c1 = connection_state c" "remote c1 = remote c"
      "sent_segments (user_data c1) = sent_segments (user_data c) @ [(remote c, seg)]"
      by (rule tick_resends [OF Cons.prems(1,2) b True, of E]) auto
    have "unat (exp_backoff c1) = unat (exp_backoff c) * 2"
      using b by (simp add: c1(3) unat_word_ariths)
    with Cons.prems(2,3) c1(2) have "re_tx (tx_buf c1) = seg # segs"
      "unat (exp_backoff c1) * 2 ^ length ts < 2 ^ 63" by simp_all
    from Cons.IH [OF on_time_tick_ok [OF c1(1) Cons.prems(1)] this] obtain n c' where
      "ticks E ts c1 = Some (n, c')" "conn_wf c'" "n \<le> length ts" "n = 0 \<longrightarrow> c' = c1" "n \<noteq> 0 \<longrightarrow> backed_off E c'"
      "sent_segments (user_data c') = sent_segments (user_data c1) @ replicate n (remote c1, seg)"
      "exp_backoff c' = exp_backoff c1 * 2 ^ n" "tx_buf c' = tx_buf c1" "events c' = events c1"
      "connection_state c' = connection_state c1" "remote c' = remote c1"
      by blast
    with c1 True show ?thesis
      by (intro exI [of _ "Suc n"] exI [of _ c']) auto
  qed
qed simp

section \<open>Property\<close>

text \<open>
  C8: an unacknowledged segment is sent again, and again, until it is acknowledged. In a
  reachable connection with something unacknowledged, any run of clock ticks (short of a back-off
  of \<open>2 ^ 63\<close> seconds) sends the first segment of the retransmission queue, the one with the
  oldest unacknowledged number, to the peer once for each tick at which the timer has expired, and
  nothing else. Each expiry doubles the back-off, and the last one has armed the timer for the
  timeout plus the back-off. A tick before the deadline changes nothing, no call is woken, and
  the queue stays as it is: only an acknowledgement shortens it.
\<close>

theorem unacknowledged_segments_are_sent_again:
  assumes "reachable E c" and "re_tx (tx_buf c) = seg # segs"
    and "unat (exp_backoff c) * 2 ^ length ts < 2 ^ 63"
  shows "\<exists>n c'. ticks E ts c = Some (n, c') \<and>
    sent_segments (user_data c') = sent_segments (user_data c) @ replicate n (remote c, seg) \<and>
    unat (unack (tx_buf c) - seqn seg) < seg_len seg \<and>
    exp_backoff c' = exp_backoff c * 2 ^ n \<and> timer_re_tx (timers c') \<noteq> None \<and>
    (if n = 0 then c' = c else backed_off E c') \<and>
    tx_buf c' = tx_buf c \<and> events c' = events c \<and> connection_state c' = connection_state c"
proof -
  have ok: "conn_wf c" by (rule reachable_wf [OF assms(1)])
  then have "unat (unack (tx_buf c) - seqn seg) < seg_len seg"
    using assms(2) waiting_timers(2) [OF ok assms(2)]
    by (auto simp: conn_ok_def tx_ok_def tx_wf_def)
  moreover obtain n c' where S: "ticks E ts c = Some (n, c')" "conn_wf c'" "n = 0 \<longrightarrow> c' = c"
    "n \<noteq> 0 \<longrightarrow> backed_off E c'" "exp_backoff c' = exp_backoff c * 2 ^ n" "tx_buf c' = tx_buf c"
    "sent_segments (user_data c') = sent_segments (user_data c) @ replicate n (remote c, seg)"
    "events c' = events c" "connection_state c' = connection_state c"
    using ticks_resend [OF ok assms(2,3), of E] by blast
  moreover have "timer_re_tx (timers c') \<noteq> None"
    using S(6) assms(2) by (intro waiting_timers(3) [OF S(2)]) simp
  ultimately show ?thesis by auto
qed

theorem unacknowledged_segments_are_sent_again_witness:
  "\<exists>c'. ticks (demo_env True) [5, 1000000006, 9000000000] demo_closing = Some (2, c') \<and>
     sent_segments (user_data c') = sent_segments (user_data demo_closing) @
       replicate 2 (9, \<lparr>seqn = 1001, ackn = 0xFFFFFFFF, window = 4096, flags = flags_or FIN ACK, data = []\<rparr>)"
proof -
  let ?fin = "\<lparr>seqn = 1001, ackn = 0xFFFFFFFF, window = 4096, flags = flags_or FIN ACK, data = []\<rparr>"
  have "re_tx (tx_buf demo_closing) = [?fin]" "remote demo_closing = 9"
    "unat (exp_backoff demo_closing) * 2 ^ length [5::nat, 1000000006, 9000000000] < 2 ^ 63"
    by (simp_all add: demo_closing_def)
  with unacknowledged_segments_are_sent_again [OF demo_reachable(3) this(1,3)]
  obtain n c' where S: "ticks (demo_env True) [5, 1000000006, 9000000000] demo_closing = Some (n, c')"
    "sent_segments (user_data c') = sent_segments (user_data demo_closing) @ replicate n (9, ?fin)"
    by auto
  moreover have "n = 2"
    using S(1) by (simp add: demo_closing_def on_time_tick_def on_timer_re_tx_def expired_def run_defs duration_add_def)
  ultimately show ?thesis by simp
qed

end
