(* ===== verification/Spec2Isabelle.thy ===== *)
theory Spec2Isabelle
  imports Tcp_Defects Tcp_Listener Tcp_Transfer Tcp_Close Tcp_Reader Tcp_Diagram Tcp_Resend
begin

text \<open>
  \<^bold>\<open>tcpstate: a TCP state machine with its data buffers\<close>

  The crate is a TCP without packets: segments come in as values (\<open>SegmentMeta\<close>), segments go
  out through a callback, and time is what the user says it is. This development models all of
  its logic under \<open>src/src/\<close> and proves what the protocol promises, together with the places
  where the code does not keep the promise.

  \<^bold>\<open>The program and its theories.\<close>

  \<^item> Values. \<open>segment.rs\<close>: sequence numbers with their modular comparisons, flags and segments
    (Tcp_Segment). \<open>state.rs\<close>: the connection states, the debug check of transitions and the
    queries (Tcp_State). \<open>options.rs\<close>, \<open>rtt.rs\<close>: constants, options and the round-trip
    estimator (Tcp_Options).
  \<^item> Buffers. \<open>queue.rs\<close>: the queue of byte blobs, with its contract as the locale
    \<open>byte_stream\<close> (Tcp_Queue). \<open>rx.rs\<close>, \<open>tx.rs\<close>: the receive buffer with its
    acknowledgement point and advertised window, the transmit buffer with its retransmission
    queue (Tcp_Buffers).
  \<^item> The user. \<open>event.rs\<close>, \<open>result.rs\<close>, \<open>user_data.rs\<close>: cookies, suspended calls, errors
    and the user's methods (Tcp_Event).
  \<^item> The connection. \<open>connection.rs\<close>, \<open>timers.rs\<close>: its state, \<open>set_state\<close>, \<open>clear\<close>,
    events, acceptance of segments and \<open>send_ack\<close> (Tcp_Connection); the user's calls
    (Tcp_Calls); the handler of an incoming segment, split along its branches and stages
    (Tcp_Receive); the timers (Tcp_Timer).
  \<^item> Around it. \<open>listen.rs\<close>: the listening socket with its backlog (Tcp_Listen). \<open>lib.rs\<close>:
    the socket that dispatches to a listening socket or a connection (Tcp_Socket), and
    \<open>response_to_closed\<close> (Tcp_Receive).

  A socket is closed, listening, or a connection. A call on a connection either returns at once
  or suspends: it leaves a cookie in the connection's table (\<open>Events\<close>) and the user is told
  through \<open>event\<close> when to go on. Segments and clock ticks change the state, trigger events and
  send segments; nearly all of them end in \<open>send_ack\<close>, the only place that takes data from the
  transmit queue.

  \<^bold>\<open>How the code is translated.\<close>

  \<^item> An operation is a function on the record of its \<open>self\<close>, under the name of the Rust function
    (\<open>Type_function\<close> where two types share it), with the branches and early returns of the code.
    A Rust struct is a record, an enum a datatype, and \<open>u8\<close> to \<open>u64\<close> are machine words.
    \<open>usize\<close> and the length of a vector are natural numbers.
  \<^item> A panic is \<open>None\<close>, whichever it is: \<open>assert!\<close>, \<open>unreachable!\<close>, \<open>unwrap\<close>, a slice
    of the wrong length. \<open>debug_assert!\<close> and the check of arithmetic overflow depend on the
    build: \<open>debug_assertions\<close> is a field of the environment (\<open>env\<close>), and every theorem holds
    for both builds unless it says otherwise. \<open>Result\<close> is the sum \<open>Error + 'a\<close>.
  \<^item> \<open>UserData\<close> and \<open>UserTime\<close> are implemented by the user of the crate, so their answers are
    parameters (\<open>new_seqn\<close>, \<open>now\<close>, \<open>add_time\<close>), which may depend on all the calls made
    before. \<open>user_data\<close> is the history of these calls: it is how the model observes the
    segments sent, the events delivered and the timeouts requested.
  \<^item> Hash tables iterate in an order the program does not know: \<open>wait_order\<close> and
    \<open>listen_order\<close> are parameters, and where it matters the hypothesis is \<open>visits_all\<close>: an
    iteration visits each element once.
  \<^item> The flags are those the \<open>bitflags!\<close> macro documents: a 16-bit word, \<open>contains\<close> and
    \<open>|\<close>. A \<open>Duration\<close> is a number of nanoseconds with its overflow checks.
  \<^item> The only recursion that is not on data is \<open>set_state\<close>, which calls itself once; its
    termination is proved.

  \<^bold>\<open>What is proved.\<close>

  \<^item> The invariant (Tcp_Invariant, Tcp_Preserve): \<open>conn_wf\<close> ties the state, both buffers, the
    timers and the suspended calls together, and every call, segment and tick keeps it. A
    connection the program can get (\<open>reachable\<close>) is therefore well-formed; Tcp_Safety draws the
    consequences: the retransmission queue is the chain from \<open>unack\<close> to \<open>tx.next\<close>, what is
    unacknowledged has a timer, the receive buffer is bounded, TIME-WAIT ends, timers never panic.
  \<^item> Panics (Tcp_Panic, Tcp_CallSafety): the segment handler panics at most on six listed inputs,
    the calls exactly on the listed ones, and each of them is shown to happen (Tcp_Defects).
  \<^item> The state diagram (Tcp_Diagram): for each operation and state the states it may lead to;
    along it channels never reopen and closes are never taken back.
  \<^item> Retransmission (Tcp_Resend): each expiry of the timer sends the oldest unacknowledged segment
    again and doubles the back-off.
  \<^item> Events (Tcp_Account, Tcp_Api, Tcp_Listener): a cookie is waiting or has been delivered
    exactly once. The argument is the locale \<open>cookie_accounting\<close>, interpreted on connections
    and on listening sockets.
  \<^item> \<open>send_ack\<close> (Tcp_SendAck): what it sends and changes, in one lemma that the others use.
  \<^item> Delivery (Tcp_Stream, Tcp_Sender, Tcp_Receiver, Tcp_Transfer): over a network that loses,
    duplicates, delays and reorders segments, what is read is a prefix of what was written, and
    the end is reported only after everything. \<open>sends\<close> says what every emitted segment is
    (bytes of the stream at the right number), \<open>rx_holds\<close> that the receiver holds a prefix;
    \<open>transfer\<close> is the system of both.
  \<^item> Progress (Tcp_Exchange, Tcp_Session, Tcp_Close, Tcp_Reader): a session from
    \<open>call_connect\<close> over the backlog to the reader delivers every chunk in spite of losses, without
    bound on the length: only segments that the step before has sent are delivered
    (\<open>sent_since\<close>), so after a loss only a copy the retransmission timer has sent. A session
    closes on both sides down to TIME-WAIT; a reader's loop comes to the end of the stream.
  \<^item> Tcp_Run evaluates a sample run in the logic; its states are the concrete inputs of most
    witnesses.

  \<^bold>\<open>Bounds.\<close> Sequence numbers compare correctly while less than half of their space is in
  flight: \<open>roomy\<close> (less than 2 GiB unacknowledged) and the lengths in \<open>sound_op\<close>. Delivery is
  stated for streams of less than 4 GiB, the point where an old duplicate can no longer be told
  from new data, and for one incarnation of each connection. The back-off is a \<open>u64\<close> that
  doubles at each timeout, hence the bound of 62 timeouts in a row. \<open>sound_op\<close> leaves out, in
  a release build, the acknowledgement that ends a passive close when its own number is 0, because
  the connection that it has just closed takes it for its next segment (\<open>not_stray\<close>, see \<open>last_ack_may_send_a_spurious_reply\<close>).

  \<^bold>\<open>Not modelled.\<close> \<open>Debug\<close> and \<open>Display\<close> implementations and log statements, which only
  produce text; \<open>serde\<close> derivations; the implementation of \<open>UserTime\<close> for
  \<open>std::time::Instant\<close>; accessors that only lend a field (\<open>options_mut\<close> is modelled, because
  the caller may change the options through it); the tests. Running out of memory is not a
  behaviour of the model.

  \<^bold>\<open>Next.\<close> Sessions with losses of the handshake and of the FINs, and with data in both
  directions; the socket's dispatch as a refinement of the two machines under it.
\<close>

end
